theory Spec2Isabelle
  imports Complex_Main
begin

section \<open>Numbers, characters and strings\<close>

text \<open>
  A JavaScript number is a finite value, \<open>NaN\<close> or one of the two infinities. The
  operations follow IEEE-754 on \<open>NaN\<close> and the infinities and are exact on finite values:
  the rounding of a double to 53 bits and the overflow of a finite result to an infinity
  are outside the model, and zero has no sign. All unit constants of the library are
  integers far below \<open>2^53\<close>, so they are exact doubles; they are kept as reals and
  enter a computation through \<open>Num\<close>.
\<close>

datatype number = Num real | NaN | PosInf | NegInf

fun isNaN :: "number \<Rightarrow> bool" where
  "isNaN NaN = True"
| "isNaN (Num x) = False"
| "isNaN PosInf = False"
| "isNaN NegInf = False"

fun num_neg :: "number \<Rightarrow> number" where
  \<comment> \<open>unary \<open>-\<close>\<close>
  "num_neg (Num x) = Num (- x)"
| "num_neg NaN = NaN"
| "num_neg PosInf = NegInf"
| "num_neg NegInf = PosInf"

fun Math_abs :: "number \<Rightarrow> number" where
  "Math_abs (Num x) = Num \<bar>x\<bar>"
| "Math_abs NaN = NaN"
| "Math_abs PosInf = PosInf"
| "Math_abs NegInf = PosInf"

fun Math_floor :: "number \<Rightarrow> number" where
  "Math_floor (Num x) = Num (real_of_int \<lfloor>x\<rfloor>)"
| "Math_floor NaN = NaN"
| "Math_floor PosInf = PosInf"
| "Math_floor NegInf = NegInf"

fun Math_round :: "number \<Rightarrow> number" where
  \<comment> \<open>\<open>Math.round\<close>: the nearest integer, a tie going up\<close>
  "Math_round (Num x) = Num (real_of_int \<lfloor>x + 1 / 2\<rfloor>)"
| "Math_round NaN = NaN"
| "Math_round PosInf = PosInf"
| "Math_round NegInf = NegInf"

fun num_add :: "number \<Rightarrow> number \<Rightarrow> number" where
  \<comment> \<open>binary \<open>+\<close> on numbers\<close>
  "num_add (Num x) (Num y) = Num (x + y)"
| "num_add NaN b = NaN"
| "num_add a NaN = NaN"
| "num_add PosInf NegInf = NaN"
| "num_add NegInf PosInf = NaN"
| "num_add PosInf b = PosInf"
| "num_add a PosInf = PosInf"
| "num_add NegInf b = NegInf"
| "num_add a NegInf = NegInf"

definition num_sub :: "number \<Rightarrow> number \<Rightarrow> number" where
  \<comment> \<open>binary \<open>-\<close>\<close>
  "num_sub a b = num_add a (num_neg b)"

fun num_mul :: "number \<Rightarrow> number \<Rightarrow> number" where
  \<comment> \<open>\<open>*\<close> on numbers\<close>
  "num_mul (Num x) (Num y) = Num (x * y)"
| "num_mul NaN b = NaN"
| "num_mul a NaN = NaN"
| "num_mul PosInf (Num y) = (if y = 0 then NaN else if 0 < y then PosInf else NegInf)"
| "num_mul NegInf (Num y) = (if y = 0 then NaN else if 0 < y then NegInf else PosInf)"
| "num_mul (Num x) PosInf = (if x = 0 then NaN else if 0 < x then PosInf else NegInf)"
| "num_mul (Num x) NegInf = (if x = 0 then NaN else if 0 < x then NegInf else PosInf)"
| "num_mul PosInf PosInf = PosInf"
| "num_mul PosInf NegInf = NegInf"
| "num_mul NegInf PosInf = NegInf"
| "num_mul NegInf NegInf = PosInf"

fun num_div :: "number \<Rightarrow> number \<Rightarrow> number" where
  \<comment> \<open>\<open>/\<close>; a zero divisor counts as \<open>+0\<close>\<close>
  "num_div (Num x) (Num y) =
     (if y = 0 then (if x = 0 then NaN else if 0 < x then PosInf else NegInf)
      else Num (x / y))"
| "num_div NaN b = NaN"
| "num_div a NaN = NaN"
| "num_div (Num x) PosInf = Num 0"
| "num_div (Num x) NegInf = Num 0"
| "num_div PosInf (Num y) = (if 0 \<le> y then PosInf else NegInf)"
| "num_div NegInf (Num y) = (if 0 \<le> y then NegInf else PosInf)"
| "num_div PosInf PosInf = NaN"
| "num_div PosInf NegInf = NaN"
| "num_div NegInf PosInf = NaN"
| "num_div NegInf NegInf = NaN"

fun num_lt :: "number \<Rightarrow> number \<Rightarrow> bool" where
  \<comment> \<open>\<open><\<close>: false as soon as one side is \<open>NaN\<close>\<close>
  "num_lt (Num x) (Num y) = (x < y)"
| "num_lt NaN b = False"
| "num_lt a NaN = False"
| "num_lt PosInf b = False"
| "num_lt a NegInf = False"
| "num_lt NegInf b = True"
| "num_lt a PosInf = True"

fun num_le :: "number \<Rightarrow> number \<Rightarrow> bool" where
  \<comment> \<open>\<open><=\<close>: false as soon as one side is \<open>NaN\<close>\<close>
  "num_le (Num x) (Num y) = (x \<le> y)"
| "num_le NaN b = False"
| "num_le a NaN = False"
| "num_le NegInf b = True"
| "num_le a PosInf = True"
| "num_le PosInf b = False"
| "num_le a NegInf = False"

definition num_gt :: "number \<Rightarrow> number \<Rightarrow> bool" where
  \<comment> \<open>\<open>>\<close>\<close>
  "num_gt a b = num_lt b a"

definition num_ge :: "number \<Rightarrow> number \<Rightarrow> bool" where
  \<comment> \<open>\<open>>=\<close>\<close>
  "num_ge a b = num_le b a"

text \<open>
  A comparison \<open>===\<close> with a finite literal is written as an equation with \<open>Num\<close>: it is
  false for \<open>NaN\<close>, as in the code.

  A string is a list of code units below 256. The classes below are those of the
  regular expressions and of \<open>String.prototype.trim\<close>, read on these code units.
\<close>

definition isDigit :: "char \<Rightarrow> bool" where
  \<comment> \<open>the class \<open>\d\<close>\<close>
  "isDigit c = (48 \<le> (of_char c :: nat) \<and> (of_char c :: nat) \<le> 57)"

definition isUpper :: "char \<Rightarrow> bool" where
  "isUpper c = (65 \<le> (of_char c :: nat) \<and> (of_char c :: nat) \<le> 90)"

definition isLower :: "char \<Rightarrow> bool" where
  "isLower c = (97 \<le> (of_char c :: nat) \<and> (of_char c :: nat) \<le> 122)"

definition isAlpha :: "char \<Rightarrow> bool" where
  \<comment> \<open>the class \<open>[a-zA-Z]\<close>\<close>
  "isAlpha c = (isUpper c \<or> isLower c)"

definition isSpace :: "char \<Rightarrow> bool" where
  \<comment> \<open>the class \<open>\s\<close>, which is also what \<open>trim\<close> removes: TAB, LF, VT, FF, CR, SP, NBSP\<close>
  "isSpace c = ((of_char c :: nat) \<in> {9, 10, 11, 12, 13, 32, 160})"

definition isBareChar :: "char \<Rightarrow> bool" where
  \<comment> \<open>the class \<open>[\d.]\<close>\<close>
  "isBareChar c = (isDigit c \<or> c = CHR ''.'')"

definition trimStart :: "string \<Rightarrow> string" where
  "trimStart s = dropWhile isSpace s"

definition trimEnd :: "string \<Rightarrow> string" where
  "trimEnd s = rev (dropWhile isSpace (rev s))"

definition trim :: "string \<Rightarrow> string" where
  "trim s = trimEnd (trimStart s)"

definition lowerChar :: "char \<Rightarrow> char" where
  "lowerChar c = (if isUpper c then char_of ((of_char c :: nat) + 32) else c)"

definition toLowerCase :: "string \<Rightarrow> string" where
  \<comment> \<open>only ever applied to a unit string, which the regular expression restricts to
      \<open>[a-zA-Z]*\<close>; so only the ASCII letters are mapped\<close>
  "toLowerCase s = map lowerChar s"

definition digitVal :: "char \<Rightarrow> nat" where
  "digitVal c = (of_char c :: nat) - 48"

definition digitsVal :: "string \<Rightarrow> nat" where
  "digitsVal ds = foldl (\<lambda>a c. 10 * a + digitVal c) 0 ds"

definition parseFloat :: "string \<Rightarrow> number" where
  \<comment> \<open>The builtin \<open>parseFloat\<close>: skip leading white space, read the longest prefix that is a
      signed decimal literal, \<open>NaN\<close> when there is none. Exponents and \<open>Infinity\<close> are left
      out: at both call sites the result is used only for a text of digits, dots and \<open>-\<close>.\<close>
  "parseFloat s =
     (let s0 = trimStart s;
          neg = (s0 \<noteq> [] \<and> hd s0 = CHR ''-'');
          s1 = (if s0 \<noteq> [] \<and> (hd s0 = CHR ''-'' \<or> hd s0 = CHR ''+'') then tl s0 else s0);
          ip = takeWhile isDigit s1;
          s2 = dropWhile isDigit s1;
          fp = (if s2 \<noteq> [] \<and> hd s2 = CHR ''.'' then takeWhile isDigit (tl s2) else []);
          v = real (digitsVal ip) + real (digitsVal fp) / 10 ^ length fp
      in if ip = [] \<and> fp = [] then NaN else Num (if neg then - v else v))"

section \<open>Duration string parsing (parse.ts)\<close>

definition MS_PER_SECOND :: real where "MS_PER_SECOND = 1000"
definition MS_PER_MINUTE :: real where "MS_PER_MINUTE = MS_PER_SECOND * 60"
definition MS_PER_HOUR :: real where "MS_PER_HOUR = MS_PER_MINUTE * 60"
definition MS_PER_DAY :: real where "MS_PER_DAY = MS_PER_HOUR * 24"
definition MS_PER_WEEK :: real where "MS_PER_WEEK = MS_PER_DAY * 7"
definition MS_PER_YEAR :: real where "MS_PER_YEAR = MS_PER_DAY * (36525 / 100)"
definition MS_PER_MONTH :: real where "MS_PER_MONTH = MS_PER_YEAR / 12"

definition UNIT_TABLE :: "(string \<times> real) list" where
  \<comment> \<open>the own properties of the object literal \<open>UNIT_MAP\<close>\<close>
  "UNIT_TABLE =
    [(''milliseconds'', 1), (''millisecond'', 1), (''msecs'', 1), (''msec'', 1), (''ms'', 1),
     (''seconds'', MS_PER_SECOND), (''second'', MS_PER_SECOND), (''secs'', MS_PER_SECOND),
     (''sec'', MS_PER_SECOND), (''s'', MS_PER_SECOND),
     (''minutes'', MS_PER_MINUTE), (''minute'', MS_PER_MINUTE), (''mins'', MS_PER_MINUTE),
     (''min'', MS_PER_MINUTE), (''m'', MS_PER_MINUTE),
     (''hours'', MS_PER_HOUR), (''hour'', MS_PER_HOUR), (''hrs'', MS_PER_HOUR),
     (''hr'', MS_PER_HOUR), (''h'', MS_PER_HOUR),
     (''days'', MS_PER_DAY), (''day'', MS_PER_DAY), (''d'', MS_PER_DAY),
     (''weeks'', MS_PER_WEEK), (''week'', MS_PER_WEEK), (''w'', MS_PER_WEEK),
     (''months'', MS_PER_MONTH), (''month'', MS_PER_MONTH), (''mo'', MS_PER_MONTH),
     (''years'', MS_PER_YEAR), (''year'', MS_PER_YEAR), (''yrs'', MS_PER_YEAR),
     (''yr'', MS_PER_YEAR), (''y'', MS_PER_YEAR)]"

text \<open>
  The lookup \<open>UNIT_MAP[unit]\<close> on a plain object literal finds an own property or one
  inherited from \<open>Object.prototype\<close>; \<open>None\<close> is \<open>undefined\<close>. The unit is a non-empty
  text of lower-case letters, and \<open>constructor\<close> is the only name of that shape on
  \<open>Object.prototype\<close>. Its value is a function, which \<open>*\<close> converts to \<open>NaN\<close>.
\<close>

datatype property = NumberValue real | ObjectConstructor

definition UNIT_MAP :: "string \<rightharpoonup> property" where
  "UNIT_MAP unit =
     (case map_of UNIT_TABLE unit of
        Some v \<Rightarrow> Some (NumberValue v)
      | None \<Rightarrow> if unit = ''constructor'' then Some ObjectConstructor else None)"

fun toNumber :: "property \<Rightarrow> number" where
  \<comment> \<open>the conversion that \<open>*\<close> applies to its operand\<close>
  "toNumber (NumberValue v) = Num v"
| "toNumber ObjectConstructor = NaN"

text \<open>The errors thrown, with the texts that the messages quote.\<close>

datatype error =
    ExpectedString
  | EmptyString
  | UnexpectedCharacters string string
  | InvalidNumber string string
  | UnknownUnit string string
  | CouldNotParse string
  | InvalidInput
  | InvalidISO string

text \<open>
  One attempt of \<open>COMPONENT_REGEX = /(-?\d+\.?\d*)\s*([a-zA-Z]*)/\<close> at the start of a text.
  Every quantifier is greedy and everything after \<open>\d+\<close> may match the empty text, so the
  first attempt that finds a digit succeeds without backtracking. The result is the number
  group, the unit group and the text after the match.
\<close>

definition matchHere :: "string \<Rightarrow> (string \<times> string \<times> string) option" where
  "matchHere s =
     (let sgn = (if s \<noteq> [] \<and> hd s = CHR ''-'' then [CHR ''-''] else []);
          s1 = (if s \<noteq> [] \<and> hd s = CHR ''-'' then tl s else s);
          ip = takeWhile isDigit s1;
          s2 = dropWhile isDigit s1;
          dot = (if s2 \<noteq> [] \<and> hd s2 = CHR ''.'' then [CHR ''.''] else []);
          s3 = (if s2 \<noteq> [] \<and> hd s2 = CHR ''.'' then tl s2 else s2);
          fp = takeWhile isDigit s3;
          s4 = dropWhile isSpace (dropWhile isDigit s3);
          unitStr = takeWhile isAlpha s4
      in if ip = [] then None
         else Some (sgn @ ip @ dot @ fp, unitStr, dropWhile isAlpha s4))"

text \<open>
  \<open>COMPONENT_REGEX.exec\<close> on the text that starts at \<open>lastIndex\<close>: the leftmost match.
  The result is the text skipped before the match (\<open>parseStr.slice(lastIndex, match.index)\<close>),
  the two groups, and the text from the new \<open>lastIndex\<close> on.
\<close>

fun exec :: "string \<Rightarrow> (string \<times> string \<times> string \<times> string) option" where
  "exec [] = None"
| "exec (c # cs) =
     (case matchHere (c # cs) of
        Some (numStr, unitStr, rest) \<Rightarrow> Some ([], numStr, unitStr, rest)
      | None \<Rightarrow>
          (case exec cs of
             None \<Rightarrow> None
           | Some (gap, numStr, unitStr, rest) \<Rightarrow> Some (c # gap, numStr, unitStr, rest)))"

text \<open>
  The \<open>while\<close> loop of \<open>parseDuration\<close>. The state is the text from \<open>lastIndex\<close> on,
  \<open>totalMs\<close> and \<open>matched\<close>; the loop ends when \<open>exec\<close> returns \<open>null\<close>.
\<close>

function scan :: "string \<Rightarrow> string \<Rightarrow> number \<Rightarrow> bool \<Rightarrow> error + (string \<times> number \<times> bool)" where
  "scan input s totalMs matched =
     (case exec s of
        None \<Rightarrow> Inr (s, totalMs, matched)
      | Some (gap, numStr, unitStr, rest) \<Rightarrow>
          if trim gap \<noteq> [] then Inl (UnexpectedCharacters (trim gap) input)
          else if numStr = [] then scan input rest totalMs matched
          else
            (let num = parseFloat numStr in
             if isNaN num then Inl (InvalidNumber numStr input)
             else
               (let unit = (if toLowerCase unitStr = [] then ''ms'' else toLowerCase unitStr)
                in case UNIT_MAP unit of
                     None \<Rightarrow> Inl (UnknownUnit unitStr input)
                   | Some multiplier \<Rightarrow>
                       scan input rest (num_add totalMs (num_mul num (toNumber multiplier))) True)))"
  by pat_completeness auto
termination
proof -
  have mh: "length r < length s" if m: "matchHere s = Some (n, u, r)" for s n u r
  proof -
    let ?s1 = "if s \<noteq> [] \<and> hd s = CHR ''-'' then tl s else s"
    let ?s2 = "dropWhile isDigit ?s1"
    let ?s3 = "if ?s2 \<noteq> [] \<and> hd ?s2 = CHR ''.'' then tl ?s2 else ?s2"
    let ?s4 = "dropWhile isSpace (dropWhile isDigit ?s3)"
    from m have ne: "takeWhile isDigit ?s1 \<noteq> []" and r: "r = dropWhile isAlpha ?s4"
      by (auto simp: matchHere_def Let_def split: if_splits)
    have "length r \<le> length ?s4" unfolding r by (rule length_dropWhile_le)
    also have "\<dots> \<le> length (dropWhile isDigit ?s3)" by (rule length_dropWhile_le)
    also have "\<dots> \<le> length ?s3" by (rule length_dropWhile_le)
    also have "\<dots> \<le> length ?s2" by simp
    also have "\<dots> < length ?s1"
    proof -
      have "length (takeWhile isDigit ?s1) + length ?s2 = length ?s1"
        by (metis length_append takeWhile_dropWhile_id)
      moreover have "0 < length (takeWhile isDigit ?s1)" using ne by simp
      ultimately show ?thesis by linarith
    qed
    also have "\<dots> \<le> length s" by simp
    finally show ?thesis .
  qed
  have ex: "length r < length s" if "exec s = Some (g, n, u, r)" for s g n u r
    using that
  proof (induction s arbitrary: g)
    case Nil
    then show ?case by simp
  next
    case (Cons c cs)
    show ?case
    proof (cases "matchHere (c # cs)")
      case (Some m)
      with Cons.prems have "matchHere (c # cs) = Some (n, u, r)"
        by (cases m) auto
      then show ?thesis by (rule mh)
    next
      case None
      with Cons.prems obtain g' where "exec cs = Some (g', n, u, r)"
        by (auto split: option.splits)
      from Cons.IH [OF this] show ?thesis by simp
    qed
  qed
  show ?thesis
    by (relation "measure (\<lambda>(input, s, totalMs, matched). length s)") (auto dest: ex)
qed

declare scan.simps [simp del]

definition testBare :: "string \<Rightarrow> bool" where
  \<comment> \<open>\<open>/^[\d.]+$/.test\<close>\<close>
  "testBare s = (s \<noteq> [] \<and> list_all isBareChar s)"

definition parseCompound :: "string \<Rightarrow> string \<Rightarrow> bool \<Rightarrow> error + number" where
  \<comment> \<open>the part of \<open>parseDuration\<close> after the bare-number test\<close>
  "parseCompound input parseStr isNegative =
     (case scan input parseStr (Num 0) False of
        Inl e \<Rightarrow> Inl e
      | Inr (rest, totalMs, matched) \<Rightarrow>
          if trim rest \<noteq> [] then Inl (UnexpectedCharacters (trim rest) input)
          else if \<not> matched then Inl (CouldNotParse input)
          else Inr (if isNegative then num_neg totalMs else totalMs))"

definition stripSign :: "string \<Rightarrow> bool \<times> string" where
  \<comment> \<open>\<open>isNegative\<close> and \<open>parseStr\<close> of a trimmed, non-empty text\<close>
  "stripSign str =
     (if hd str = CHR ''-'' then (True, trim (tl str))
      else if hd str = CHR ''+'' then (False, trim (tl str))
      else (False, str))"

definition parseDuration :: "string \<Rightarrow> error + number" where
  \<comment> \<open>the \<open>typeof\<close> test cannot fail here: the argument is a string by its type\<close>
  "parseDuration input =
     (let str = trim input in
      if str = [] then Inl EmptyString
      else
        (let (isNegative, parseStr) = stripSign str;
             bareNumber = parseFloat parseStr
         in if \<not> isNaN bareNumber \<and> testBare parseStr
            then Inr (if isNegative then num_neg bareNumber else bareNumber)
            else parseCompound input parseStr isNegative))"

section \<open>Durations (duration.ts)\<close>

record Duration =
  ms :: number

definition Duration_milliseconds :: "number \<Rightarrow> Duration" where
  "Duration_milliseconds n = \<lparr>ms = n\<rparr>"

definition Duration_negate :: "Duration \<Rightarrow> Duration" where
  "Duration_negate d = \<lparr>ms = num_neg (Duration.ms d)\<rparr>"

definition Duration_toMillis :: "Duration \<Rightarrow> number" where
  "Duration_toMillis d = Duration.ms d"

datatype DurationInput = Str string | Dur Duration

definition normalizeToMillis :: "DurationInput \<Rightarrow> error + number" where
  \<comment> \<open>the final \<open>throw\<close> is unreachable for a value of this type\<close>
  "normalizeToMillis input =
     (case input of Str s \<Rightarrow> parseDuration s | Dur d \<Rightarrow> Inr (Duration_toMillis d))"

section \<open>Formatting (format.ts)\<close>

text \<open>
  The conversion of a number to text in a template literal, as ECMAScript defines it
  for radix 10: with \<open>s\<close> the significant digits of the value, \<open>k\<close> their count and \<open>n\<close>
  the position of the decimal point, the digits are padded with zeros, split by a point,
  preceded by \<open>0.\<close> and zeros, or written with an exponent, according to \<open>n\<close>. The digits
  are those of the exact decimal expansion, cut after 17 places; for a double that is not
  a decimal of at most 15 digits JavaScript prints the shortest digits that read back as
  the same double, which may differ.
\<close>

fun natDigits :: "nat \<Rightarrow> string" where
  "natDigits n =
     (if n < 10 then [char_of (48 + n)]
      else natDigits (n div 10) @ [char_of (48 + n mod 10)])"

declare natDigits.simps [simp del]

fun fracDigits :: "nat \<Rightarrow> real \<Rightarrow> string" where
  \<comment> \<open>the first digits after the point of a value in \<open>[0, 1)\<close>, up to the last non-zero one\<close>
  "fracDigits 0 f = []"
| "fracDigits (Suc k) f =
     (if f = 0 then []
      else char_of (48 + nat \<lfloor>10 * f\<rfloor>) # fracDigits k (10 * f - real_of_int \<lfloor>10 * f\<rfloor>))"

fun leadingZeros :: "nat \<Rightarrow> real \<Rightarrow> nat" where
  \<comment> \<open>the zeros between the point and the first non-zero digit of a value in \<open>(0, 1)\<close>\<close>
  "leadingZeros 0 y = 0"
| "leadingZeros (Suc k) y = (if 1 \<le> 10 * y then 0 else Suc (leadingZeros k (10 * y)))"

definition decimalExponent :: "real \<Rightarrow> int" where
  \<comment> \<open>the \<open>n\<close> with \<open>10^(n-1) \<le> x < 10^n\<close>, for \<open>0 < x\<close>; no positive double is below
      \<open>10^-324\<close>\<close>
  "decimalExponent x =
     (if 1 \<le> x then int (length (natDigits (nat \<lfloor>x\<rfloor>))) else - int (leadingZeros 330 x))"

definition significantDigits :: "real \<Rightarrow> string" where
  \<comment> \<open>the digits \<open>s\<close> of \<open>0 < x\<close>, without trailing zeros\<close>
  "significantDigits x =
     (let n = decimalExponent x;
          m = (if 0 \<le> n then x / 10 ^ nat n else x * 10 ^ nat (- n))
      in rev (dropWhile (\<lambda>c. c = CHR ''0'') (rev (fracDigits 17 m))))"

definition positiveToString :: "real \<Rightarrow> string" where
  "positiveToString x =
     (let n = decimalExponent x;
          s = significantDigits x;
          k = int (length s)
      in if k \<le> n \<and> n \<le> 21 then s @ replicate (nat (n - k)) (CHR ''0'')
         else if 0 < n \<and> n \<le> 21 then take (nat n) s @ ''.'' @ drop (nat n) s
         else if - 6 < n \<and> n \<le> 0 then ''0.'' @ replicate (nat (- n)) (CHR ''0'') @ s
         else (if k = 1 then s else take 1 s @ ''.'' @ drop 1 s)
              @ ''e'' @ (if 0 \<le> n - 1 then ''+'' else ''-'') @ natDigits (nat \<bar>n - 1\<bar>))"

fun numberToString :: "number \<Rightarrow> string" where
  "numberToString NaN = ''NaN''"
| "numberToString PosInf = ''Infinity''"
| "numberToString NegInf = ''-Infinity''"
| "numberToString (Num x) =
     (if x = 0 then ''0''
      else if x < 0 then CHR ''-'' # positiveToString (- x)
      else positiveToString x)"

record Options =
  long :: "bool option"

definition optLong :: "Options option \<Rightarrow> bool" where
  \<comment> \<open>\<open>options?.long ?? false\<close>\<close>
  "optLong options =
     (case options of
        None \<Rightarrow> False
      | Some opts \<Rightarrow> (case Options.long opts of None \<Rightarrow> False | Some b \<Rightarrow> b))"

record UnitDesc =
  ms :: real
  short :: string
  long :: string
  longPlural :: string

definition UNITS :: "UnitDesc list" where
  "UNITS =
    [\<lparr>ms = MS_PER_YEAR, short = ''y'', long = ''year'', longPlural = ''years''\<rparr>,
     \<lparr>ms = MS_PER_MONTH, short = ''mo'', long = ''month'', longPlural = ''months''\<rparr>,
     \<lparr>ms = MS_PER_WEEK, short = ''w'', long = ''week'', longPlural = ''weeks''\<rparr>,
     \<lparr>ms = MS_PER_DAY, short = ''d'', long = ''day'', longPlural = ''days''\<rparr>,
     \<lparr>ms = MS_PER_HOUR, short = ''h'', long = ''hour'', longPlural = ''hours''\<rparr>,
     \<lparr>ms = MS_PER_MINUTE, short = ''m'', long = ''minute'', longPlural = ''minutes''\<rparr>,
     \<lparr>ms = MS_PER_SECOND, short = ''s'', long = ''second'', longPlural = ''seconds''\<rparr>,
     \<lparr>ms = 1, short = ''ms'', long = ''millisecond'', longPlural = ''milliseconds''\<rparr>]"

text \<open>The \<open>for\<close> loop of \<open>humanize\<close>; \<open>None\<close> when it ends without returning.\<close>

fun humanizeLoop :: "UnitDesc list \<Rightarrow> number \<Rightarrow> string \<Rightarrow> bool \<Rightarrow> string option" where
  "humanizeLoop [] absMs sign lng = None"
| "humanizeLoop (unit # units) absMs sign lng =
     (if num_ge absMs (Num (UnitDesc.ms unit)) then
        (let val = Math_round (num_div absMs (Num (UnitDesc.ms unit))) in
         if lng then
           (let unitName = (if val = Num 1 then UnitDesc.long unit else longPlural unit)
            in Some (sign @ numberToString val @ '' '' @ unitName))
         else Some (sign @ numberToString val @ short unit))
      else humanizeLoop units absMs sign lng)"

definition humanize :: "number \<Rightarrow> Options option \<Rightarrow> string" where
  "humanize x options =
     (let lng = optLong options;
          absMs = Math_abs x;
          sign = (if num_lt x (Num 0) then [CHR ''-''] else [])
      in if absMs = Num 0 then (if lng then ''0 milliseconds'' else ''0ms'')
         else
           (case humanizeLoop UNITS absMs sign lng of
              Some r \<Rightarrow> r
            | None \<Rightarrow>
                if lng then sign @ numberToString absMs @ '' milliseconds''
                else sign @ numberToString absMs @ ''ms''))"

definition formatRelative :: "number \<Rightarrow> Options option \<Rightarrow> string" where
  "formatRelative diffMs options =
     (let lng = optLong options;
          absDiff = Math_abs diffMs;
          threshold = Num (MS_PER_SECOND * 10)
      in if num_lt absDiff threshold then
           (if num_ge diffMs (Num 0) then (if lng then ''in a moment'' else ''in a moment'')
            else (if lng then ''just now'' else ''just now''))
         else
           (let duration = humanize absDiff (Some \<lparr>Options.long = Some lng\<rparr>)
            in if num_gt diffMs (Num 0) then ''in '' @ duration else duration @ '' ago''))"

section \<open>Instants (time.ts)\<close>

text \<open>
  The clock reading \<open>Date.now()\<close>, always a finite number, is a parameter \<open>now\<close> of every
  operation that reads it. A \<open>Date\<close> object holds a time value, which is an integer, or
  nothing when the date is invalid; then \<open>getTime\<close> returns \<open>NaN\<close>. The builtin parser
  \<open>new Date(s)\<close> is a parameter.
\<close>

record Time =
  ms :: number

record Date =
  timeValue :: "int option"

definition getTime :: "Date \<Rightarrow> number" where
  "getTime d = (case timeValue d of None \<Rightarrow> NaN | Some v \<Rightarrow> Num (real_of_int v))"

datatype TimeOrDate = OfTime Time | OfDate Date

definition Time_new :: "number \<Rightarrow> Time" where
  \<comment> \<open>the private constructor\<close>
  "Time_new x = \<lparr>ms = Math_floor x\<rparr>"



definition Time_millis :: "number \<Rightarrow> Time" where
  "Time_millis unix = Time_new unix"







definition otherMs :: "TimeOrDate \<Rightarrow> number" where
  \<comment> \<open>\<open>other instanceof Time ? other.#ms : other.getTime()\<close>\<close>
  "otherMs other = (case other of OfTime t \<Rightarrow> Time.ms t | OfDate d \<Rightarrow> getTime d)"

definition isWithin :: "real \<Rightarrow> Time \<Rightarrow> DurationInput \<Rightarrow> TimeOrDate option \<Rightarrow> error + bool" where
  "isWithin now t duration anchor =
     (case normalizeToMillis duration of
        Inl e \<Rightarrow> Inl e
      | Inr m \<Rightarrow>
          (let windowMs = Math_abs m;
               anchorMs = (case anchor of Some other \<Rightarrow> otherMs other | None \<Rightarrow> Num now);
               diff = Math_abs (num_sub (Time.ms t) anchorMs)
           in Inr (num_le diff windowMs)))"

definition toMillis :: "Time \<Rightarrow> number" where
  "toMillis t = Time.ms t"

section \<open>Auxiliary notions for the statements\<close>

definition rendered :: "UnitDesc \<Rightarrow> real \<Rightarrow> string \<Rightarrow> bool \<Rightarrow> string" where
  \<comment> \<open>what one iteration of the loop of \<open>humanize\<close> returns for the unit it selects, on a
      finite magnitude\<close>
  "rendered u absMs sign lng =
     sign @ numberToString (Num (real_of_int \<lfloor>absMs / UnitDesc.ms u + 1 / 2\<rfloor>))
       @ (if lng then '' '' @ (if \<lfloor>absMs / UnitDesc.ms u + 1 / 2\<rfloor> = 1 then UnitDesc.long u
                              else longPlural u)
          else short u)"

definition singleComponent :: "string \<Rightarrow> bool" where
  \<comment> \<open>a text that is one component: the pattern matches all of it, with an unsigned
      number and a non-empty unit that the table knows\<close>
  "singleComponent a =
     (case matchHere a of
        None \<Rightarrow> False
      | Some (numStr, unitStr, rest) \<Rightarrow>
          rest = [] \<and> hd a \<noteq> CHR ''-'' \<and> unitStr \<noteq> []
          \<and> map_of UNIT_TABLE (toLowerCase unitStr) \<noteq> None)"

fun straySign :: "string \<Rightarrow> bool" where
  \<comment> \<open>the text has a \<open>+\<close>, or a \<open>-\<close> that no digit follows\<close>
  "straySign [] = False"
| "straySign (c # cs) =
     (c = CHR ''+'' \<or> (c = CHR ''-'' \<and> (cs = [] \<or> \<not> isDigit (hd cs))) \<or> straySign cs)"

definition strayOutcome :: "string \<Rightarrow> error + (string \<times> number \<times> bool) \<Rightarrow> bool" where
  \<comment> \<open>what the loop does on a text with a stray sign: it fails, or the sign is still ahead\<close>
  "strayOutcome input res =
     (case res of
        Inl e \<Rightarrow> (\<exists>g. e = UnexpectedCharacters g input) \<or> (\<exists>w. e = UnknownUnit w input)
      | Inr (r, t, m) \<Rightarrow> straySign r)"

section \<open>Arithmetic on finite numbers\<close>

lemma num_cmp_Num [simp]:
  "num_ge (Num a) (Num b) = (b \<le> a)" "num_gt (Num a) (Num b) = (b < a)"
  by (simp_all add: num_ge_def num_gt_def)

lemma num_sub_Num [simp]: "num_sub (Num a) (Num b) = Num (a - b)"
  by (simp add: num_sub_def)

section \<open>The formatter\<close>

lemma MS_values:
  "MS_PER_SECOND = 1000" "MS_PER_MINUTE = 60000" "MS_PER_HOUR = 3600000"
  "MS_PER_DAY = 86400000" "MS_PER_WEEK = 604800000"
  "MS_PER_YEAR = 31557600000" "MS_PER_MONTH = 2629800000"
  by (simp_all add: MS_PER_SECOND_def MS_PER_MINUTE_def MS_PER_HOUR_def MS_PER_DAY_def
      MS_PER_WEEK_def MS_PER_YEAR_def MS_PER_MONTH_def)

lemma humanizeLoop_find:
  assumes "\<forall>u \<in> set us. UnitDesc.ms u \<noteq> 0"
  shows "humanizeLoop us (Num a) sign lng =
     map_option (\<lambda>u. rendered u a sign lng) (find (\<lambda>u. UnitDesc.ms u \<le> a) us)"
  using assms by (induction us) (simp_all add: rendered_def Let_def)

lemma find_first_largest:
  assumes "sorted_wrt (\<lambda>u v. UnitDesc.ms v \<le> UnitDesc.ms u) us"
    and "find (\<lambda>u. UnitDesc.ms u \<le> a) us = Some u"
    and "v \<in> set us" and "UnitDesc.ms v \<le> a"
  shows "UnitDesc.ms v \<le> UnitDesc.ms u"
  using assms by (induction us) (auto split: if_splits)

lemma UNITS_descending: "sorted_wrt (\<lambda>u v. UnitDesc.ms v \<le> UnitDesc.ms u) UNITS"
  by (simp add: UNITS_def MS_values)

lemma UNITS_last:
  "\<lparr>UnitDesc.ms = 1, short = ''ms'', long = ''millisecond'', longPlural = ''milliseconds''\<rparr>
     \<in> set UNITS"
  by (simp add: UNITS_def)

lemma UNITS_ge_1: "u \<in> set UNITS \<Longrightarrow> 1 \<le> UnitDesc.ms u"
  by (auto simp: UNITS_def MS_values)

lemma UNITS_nonzero: "\<forall>u \<in> set UNITS. UnitDesc.ms u \<noteq> 0"
  using UNITS_ge_1 by fastforce

lemma find_UNITS_Some:
  assumes "1 \<le> a"
  shows "\<exists>u. find (\<lambda>u. UnitDesc.ms u \<le> a) UNITS = Some u"
proof -
  have "find (\<lambda>u. UnitDesc.ms u \<le> a) UNITS \<noteq> None"
    using assms UNITS_last by (auto simp: find_None_iff)
  then show ?thesis by auto
qed

lemma find_UNITS_None:
  assumes "a < 1"
  shows "find (\<lambda>u. UnitDesc.ms u \<le> a) UNITS = None"
  using assms UNITS_ge_1 by (fastforce simp: find_None_iff)

lemma floor_half_nearest:
  "real_of_int \<lfloor>q + 1 / 2\<rfloor> - 1 / 2 \<le> q \<and> q < real_of_int \<lfloor>q + 1 / 2\<rfloor> + 1 / 2" for q :: real
  by linarith

lemma humanize_infinite:
  "humanize PosInf opts = ''Infinity'' @ (if optLong opts then '' years'' else ''y'')"
  "humanize NegInf opts = ''-Infinity'' @ (if optLong opts then '' years'' else ''y'')"
  by (simp_all add: humanize_def Let_def UNITS_def num_ge_def MS_values)

lemma formatRelative_cases:
  "formatRelative q opts =
     (if num_lt (Math_abs q) (Num 10000)
      then (if num_ge q (Num 0) then ''in a moment'' else ''just now'')
      else if num_ge q (Num 0)
      then ''in '' @ humanize (Math_abs q) (Some \<lparr>Options.long = Some (optLong opts)\<rparr>)
      else humanize (Math_abs q) (Some \<lparr>Options.long = Some (optLong opts)\<rparr>) @ '' ago'')"
  by (cases q) (auto simp: formatRelative_def Let_def MS_PER_SECOND_def num_ge_def num_gt_def)

text \<open>
  Claim C6. For every \<open>x\<close> with \<open>1 \<le> |x|\<close>, \<open>humanize\<close> selects the first unit of the
  descending list \<open>UNITS\<close> whose size is at most \<open>|x|\<close>, which is the largest such unit;
  it displays the integer \<open>n\<close> nearest to \<open>|x|\<close> divided by that size, a tie going up
  (\<open>n - 1/2 \<le> q < n + 1/2\<close>), with a leading \<open>-\<close> exactly when \<open>x < 0\<close>; the long form
  uses the singular name exactly when \<open>n = 1\<close>. In particular \<open>humanize(5400000)\<close> is
  \<open>2h\<close> and \<open>humanize(129600000)\<close> is \<open>2d\<close>. For the two infinities the unit is the
  year, the largest of all, and the value displayed is the quotient, \<open>Infinity\<close>;
  \<open>|NaN| \<ge> 1\<close> is false.
\<close>

theorem humanize_largest_unit_rounded:
  "(1 \<le> \<bar>x\<bar> \<longrightarrow>
     (\<exists>u n. find (\<lambda>u. UnitDesc.ms u \<le> \<bar>x\<bar>) UNITS = Some u
        \<and> (\<forall>v \<in> set UNITS. UnitDesc.ms v \<le> \<bar>x\<bar> \<longrightarrow> UnitDesc.ms v \<le> UnitDesc.ms u)
        \<and> real_of_int n - 1 / 2 \<le> \<bar>x\<bar> / UnitDesc.ms u
        \<and> \<bar>x\<bar> / UnitDesc.ms u < real_of_int n + 1 / 2
        \<and> humanize (Num x) opts =
            (if x < 0 then ''-'' else []) @ numberToString (Num (real_of_int n))
              @ (if optLong opts then '' '' @ (if n = 1 then UnitDesc.long u else longPlural u)
                 else short u)))
   \<and> humanize (Num 5400000) None = ''2h''
   \<and> humanize (Num 129600000) None = ''2d''
   \<and> humanize PosInf opts = ''Infinity'' @ (if optLong opts then '' years'' else ''y'')
   \<and> humanize NegInf opts = ''-Infinity'' @ (if optLong opts then '' years'' else ''y'')"
proof (intro conjI impI)
  assume x: "1 \<le> \<bar>x\<bar>"
  from find_UNITS_Some [OF x] obtain u
    where u: "find (\<lambda>u. UnitDesc.ms u \<le> \<bar>x\<bar>) UNITS = Some u" ..
  define n where "n = \<lfloor>\<bar>x\<bar> / UnitDesc.ms u + 1 / 2\<rfloor>"
  have largest: "\<forall>v \<in> set UNITS. UnitDesc.ms v \<le> \<bar>x\<bar> \<longrightarrow> UnitDesc.ms v \<le> UnitDesc.ms u"
    using find_first_largest [OF UNITS_descending u] by blast
  have near: "real_of_int n - 1 / 2 \<le> \<bar>x\<bar> / UnitDesc.ms u"
    "\<bar>x\<bar> / UnitDesc.ms u < real_of_int n + 1 / 2"
    using floor_half_nearest [of "\<bar>x\<bar> / UnitDesc.ms u"] by (simp_all add: n_def)
  have nz: "\<bar>x\<bar> \<noteq> 0" using x by simp
  have "humanize (Num x) opts = rendered u \<bar>x\<bar> (if x < 0 then ''-'' else []) (optLong opts)"
    using nz by (simp add: humanize_def Let_def humanizeLoop_find [OF UNITS_nonzero] u)
  also have "\<dots> = (if x < 0 then ''-'' else []) @ numberToString (Num (real_of_int n))
              @ (if optLong opts then '' '' @ (if n = 1 then UnitDesc.long u else longPlural u)
                 else short u)"
    by (simp add: rendered_def n_def)
  finally have h: "humanize (Num x) opts =
            (if x < 0 then ''-'' else []) @ numberToString (Num (real_of_int n))
              @ (if optLong opts then '' '' @ (if n = 1 then UnitDesc.long u else longPlural u)
                 else short u)" .
  from u largest near h
  show "\<exists>u n. find (\<lambda>u. UnitDesc.ms u \<le> \<bar>x\<bar>) UNITS = Some u
        \<and> (\<forall>v \<in> set UNITS. UnitDesc.ms v \<le> \<bar>x\<bar> \<longrightarrow> UnitDesc.ms v \<le> UnitDesc.ms u)
        \<and> real_of_int n - 1 / 2 \<le> \<bar>x\<bar> / UnitDesc.ms u
        \<and> \<bar>x\<bar> / UnitDesc.ms u < real_of_int n + 1 / 2
        \<and> humanize (Num x) opts =
            (if x < 0 then ''-'' else []) @ numberToString (Num (real_of_int n))
              @ (if optLong opts then '' '' @ (if n = 1 then UnitDesc.long u else longPlural u)
                 else short u)"
    by blast
next
  show "humanize (Num 5400000) None = ''2h''" by code_simp
next
  show "humanize (Num 129600000) None = ''2d''" by code_simp
next
  show "humanize PosInf opts = ''Infinity'' @ (if optLong opts then '' years'' else ''y'')"
    by (rule humanize_infinite)
next
  show "humanize NegInf opts = ''-Infinity'' @ (if optLong opts then '' years'' else ''y'')"
    by (rule humanize_infinite)
qed

theorem humanize_largest_unit_rounded_witness:
  "1 \<le> \<bar>- 5400000 :: real\<bar> \<and>
   (\<exists>u n. find (\<lambda>u. UnitDesc.ms u \<le> \<bar>- 5400000\<bar>) UNITS = Some u
        \<and> (\<forall>v \<in> set UNITS. UnitDesc.ms v \<le> \<bar>- 5400000\<bar> \<longrightarrow> UnitDesc.ms v \<le> UnitDesc.ms u)
        \<and> real_of_int n - 1 / 2 \<le> \<bar>- 5400000\<bar> / UnitDesc.ms u
        \<and> \<bar>- 5400000\<bar> / UnitDesc.ms u < real_of_int n + 1 / 2
        \<and> humanize (Num (- 5400000)) (Some \<lparr>Options.long = Some True\<rparr>) =
            ''-'' @ numberToString (Num (real_of_int n)) @ '' ''
              @ (if n = 1 then UnitDesc.long u else longPlural u))"
  using humanize_largest_unit_rounded [of "- 5400000" "Some \<lparr>Options.long = Some True\<rparr>"]
  by (simp add: optLong_def)

text \<open>
  Claim C9. For every \<open>x\<close> with \<open>0 < |x| < 1\<close> no unit is selected and nothing is rounded:
  \<open>humanize\<close> returns the text of \<open>|x|\<close> itself followed by \<open>ms\<close> (short) or
  \<open> milliseconds\<close> (long), with a leading \<open>-\<close> when \<open>x < 0\<close>; for example
  \<open>humanize(0.5)\<close> is \<open>0.5ms\<close>. The function has no failing branch: its result is a
  string for every number. Only a finite \<open>x\<close> has \<open>0 < |x| < 1\<close>.
\<close>

theorem humanize_submillisecond:
  "(0 < \<bar>x\<bar> \<and> \<bar>x\<bar> < 1 \<longrightarrow>
      humanize (Num x) opts =
        (if x < 0 then ''-'' else []) @ numberToString (Num \<bar>x\<bar>)
          @ (if optLong opts then '' milliseconds'' else ''ms''))
   \<and> humanize (Num (1 / 2)) None = ''0.5ms''"
proof (intro conjI impI)
  assume x: "0 < \<bar>x\<bar> \<and> \<bar>x\<bar> < 1"
  then have "find (\<lambda>u. UnitDesc.ms u \<le> \<bar>x\<bar>) UNITS = None"
    by (intro find_UNITS_None) simp
  with x show "humanize (Num x) opts =
        (if x < 0 then ''-'' else []) @ numberToString (Num \<bar>x\<bar>)
          @ (if optLong opts then '' milliseconds'' else ''ms'')"
    by (simp add: humanize_def Let_def humanizeLoop_find [OF UNITS_nonzero])
next
  show "humanize (Num (1 / 2)) None = ''0.5ms''" by code_simp
qed

theorem humanize_submillisecond_witness:
  "0 < \<bar>- 1 / 4 :: real\<bar> \<and> \<bar>- 1 / 4 :: real\<bar> < 1 \<and>
   humanize (Num (- 1 / 4)) (Some \<lparr>Options.long = Some True\<rparr>) = ''-0.25 milliseconds''"
proof -
  have n: "numberToString (Num \<bar>- 1 / 4\<bar>) = ''0.25''" by code_simp
  show ?thesis
    using humanize_submillisecond [of "- 1 / 4" "Some \<lparr>Options.long = Some True\<rparr>"] n
    by (simp add: optLong_def)
qed

text \<open>
  Claim C7. For \<open>|d| < 10000\<close>, \<open>formatRelative\<close> returns \<open>in a moment\<close> when \<open>d \<ge> 0\<close>
  and \<open>just now\<close> when \<open>d < 0\<close>, whatever the \<open>long\<close> option; for \<open>|d| \<ge> 10000\<close> it
  returns \<open>in \<close> followed by \<open>humanize(|d|)\<close> when \<open>d\<close> is not negative, and
  \<open>humanize(|d|)\<close> followed by \<open> ago\<close> when it is. In particular
  \<open>formatRelative(9999)\<close> is \<open>in a moment\<close> and \<open>formatRelative(11000)\<close> is \<open>in 11s\<close>.
  The last part states the same for every number \<open>q\<close>, \<open>NaN\<close> and the infinities
  included, with the comparisons of the language.
\<close>

theorem formatRelative_threshold:
  "(\<bar>d\<bar> < 10000 \<longrightarrow>
      formatRelative (Num d) opts = (if 0 \<le> d then ''in a moment'' else ''just now''))
   \<and> (10000 \<le> \<bar>d\<bar> \<longrightarrow>
      formatRelative (Num d) opts =
        (if 0 \<le> d
         then ''in '' @ humanize (Num \<bar>d\<bar>) (Some \<lparr>Options.long = Some (optLong opts)\<rparr>)
         else humanize (Num \<bar>d\<bar>) (Some \<lparr>Options.long = Some (optLong opts)\<rparr>) @ '' ago''))
   \<and> formatRelative (Num 9999) None = ''in a moment''
   \<and> formatRelative (Num 11000) None = ''in 11s''
   \<and> formatRelative q opts =
       (if num_lt (Math_abs q) (Num 10000)
        then (if num_ge q (Num 0) then ''in a moment'' else ''just now'')
        else if num_ge q (Num 0)
        then ''in '' @ humanize (Math_abs q) (Some \<lparr>Options.long = Some (optLong opts)\<rparr>)
        else humanize (Math_abs q) (Some \<lparr>Options.long = Some (optLong opts)\<rparr>) @ '' ago'')"
proof (intro conjI impI)
  assume "\<bar>d\<bar> < 10000"
  then show "formatRelative (Num d) opts = (if 0 \<le> d then ''in a moment'' else ''just now'')"
    by (simp add: formatRelative_def Let_def MS_PER_SECOND_def)
next
  assume "10000 \<le> \<bar>d\<bar>"
  then show "formatRelative (Num d) opts =
        (if 0 \<le> d
         then ''in '' @ humanize (Num \<bar>d\<bar>) (Some \<lparr>Options.long = Some (optLong opts)\<rparr>)
         else humanize (Num \<bar>d\<bar>) (Some \<lparr>Options.long = Some (optLong opts)\<rparr>) @ '' ago'')"
    by (auto simp: formatRelative_def Let_def MS_PER_SECOND_def)
next
  show "formatRelative (Num 9999) None = ''in a moment''" by code_simp
next
  show "formatRelative (Num 11000) None = ''in 11s''" by code_simp
next
  show "formatRelative q opts =
       (if num_lt (Math_abs q) (Num 10000)
        then (if num_ge q (Num 0) then ''in a moment'' else ''just now'')
        else if num_ge q (Num 0)
        then ''in '' @ humanize (Math_abs q) (Some \<lparr>Options.long = Some (optLong opts)\<rparr>)
        else humanize (Math_abs q) (Some \<lparr>Options.long = Some (optLong opts)\<rparr>) @ '' ago'')"
    by (rule formatRelative_cases)
qed

theorem formatRelative_threshold_witness:
  "\<bar>- 5000 :: real\<bar> < 10000
   \<and> formatRelative (Num (- 5000)) (Some \<lparr>Options.long = Some True\<rparr>) = ''just now''
   \<and> 10000 \<le> \<bar>- 60000 :: real\<bar> \<and> formatRelative (Num (- 60000)) None = ''1m ago''"
proof -
  have h: "humanize (Num 60000) (Some \<lparr>Options.long = Some False\<rparr>) = ''1m''" by code_simp
  show ?thesis
    using formatRelative_threshold [of "- 5000" "Some \<lparr>Options.long = Some True\<rparr>"]
      formatRelative_threshold [of "- 60000" None] h
    by (simp add: optLong_def)
qed

section \<open>The parser\<close>

subsection \<open>Character classes\<close>

lemma digit_not_space: "isDigit c \<Longrightarrow> \<not> isSpace c"
  by (auto simp: isDigit_def isSpace_def)

lemma digit_not_alpha: "isDigit c \<Longrightarrow> \<not> isAlpha c"
  by (auto simp: isDigit_def isAlpha_def isUpper_def isLower_def)

lemma alpha_not_space: "isAlpha c \<Longrightarrow> \<not> isSpace c"
  by (auto simp: isSpace_def isAlpha_def isUpper_def isLower_def)

lemma alpha_not_bare: "isAlpha c \<Longrightarrow> \<not> isBareChar c"
  by (auto simp: isBareChar_def isDigit_def isAlpha_def isUpper_def isLower_def)

lemma sign_classes [simp]:
  "\<not> isDigit (CHR ''-'')" "\<not> isSpace (CHR ''-'')" "\<not> isAlpha (CHR ''-'')"
  "\<not> isDigit (CHR ''+'')" "\<not> isSpace (CHR ''+'')" "\<not> isAlpha (CHR ''+'')"
  "\<not> isDigit (CHR ''.'')" "\<not> isSpace (CHR ''.'')" "\<not> isAlpha (CHR ''.'')"
  by (simp_all add: isDigit_def isSpace_def isAlpha_def isUpper_def isLower_def)

lemma digit_not_sign: "isDigit c \<Longrightarrow> c \<noteq> CHR ''-'' \<and> c \<noteq> CHR ''+'' \<and> c \<noteq> CHR ''.''"
  by auto

lemma lowerChar_lower_alpha: "isLower (lowerChar c) \<Longrightarrow> isAlpha c"
  by (auto simp: lowerChar_def isAlpha_def split: if_splits)

subsection \<open>Trimming\<close>

lemma dropWhile_spaces_prefix:
  "list_all isSpace a \<Longrightarrow> m = [] \<or> \<not> isSpace (hd m) \<Longrightarrow> dropWhile isSpace (a @ m) = m"
  by (induction a) (cases m; auto)+

lemma trimEnd_spaces_suffix:
  assumes "list_all isSpace b" "m = [] \<or> \<not> isSpace (last m)"
  shows "trimEnd (m @ b) = m"
proof -
  have "dropWhile isSpace (rev b @ rev m) = rev m"
    using assms by (intro dropWhile_spaces_prefix) (auto simp: list_all_iff hd_rev)
  then show ?thesis by (simp add: trimEnd_def)
qed

lemma trim_unique:
  assumes "list_all isSpace a" "list_all isSpace b"
    and "m = [] \<or> (\<not> isSpace (hd m) \<and> \<not> isSpace (last m))"
  shows "trim (a @ m @ b) = m"
proof -
  show ?thesis
  proof (cases "m = []")
    case True
    have h: "dropWhile isSpace (a @ b) = []"
      using assms(1,2) by (auto simp: list_all_iff dropWhile_eq_Nil_conv dest: set_dropWhileD)
    have "trim (a @ m @ b) = trimEnd (dropWhile isSpace (a @ b))"
      using True by (simp only: trim_def trimStart_def append_Nil)
    also have "\<dots> = trimEnd []" by (simp only: h)
    also have "\<dots> = []" by (simp add: trimEnd_def)
    finally show ?thesis using True by simp
  next
    case False
    with assms(3) have "m @ b = [] \<or> \<not> isSpace (hd (m @ b))" by simp
    with assms(1) have "trimStart (a @ m @ b) = m @ b" unfolding trimStart_def
      by (rule dropWhile_spaces_prefix)
    with assms False show ?thesis
      by (auto simp: trim_def intro: trimEnd_spaces_suffix)
  qed
qed

lemma trim_decomp:
  "\<exists>a m b. s = a @ m @ b \<and> list_all isSpace a \<and> list_all isSpace b
     \<and> (m = [] \<or> (\<not> isSpace (hd m) \<and> \<not> isSpace (last m)))"
proof -
  define a where "a = takeWhile isSpace s"
  define y where "y = dropWhile isSpace s"
  define b where "b = rev (takeWhile isSpace (rev y))"
  define m where "m = rev (dropWhile isSpace (rev y))"
  have s: "s = a @ y" by (simp add: a_def y_def)
  have y: "y = m @ b"
  proof -
    have "rev (rev y) = rev (takeWhile isSpace (rev y) @ dropWhile isSpace (rev y))"
      by (simp only: takeWhile_dropWhile_id)
    then show ?thesis by (simp only: rev_rev_ident rev_append m_def b_def)
  qed
  have la: "list_all isSpace a"
    by (auto simp: a_def list_all_iff dest: set_takeWhileD)
  have lb: "list_all isSpace b"
    by (auto simp: b_def list_all_iff dest: set_takeWhileD)
  have "\<not> isSpace (hd m) \<and> \<not> isSpace (last m)" if ne: "m \<noteq> []"
  proof
    from ne have "y \<noteq> []" using y by simp
    then have "\<not> isSpace (hd y)" unfolding y_def by (rule hd_dropWhile)
    with ne y show "\<not> isSpace (hd m)" by simp
    from ne have "dropWhile isSpace (rev y) \<noteq> []" by (simp add: m_def)
    then have "\<not> isSpace (hd (dropWhile isSpace (rev y)))" by (rule hd_dropWhile)
    with ne show "\<not> isSpace (last m)" by (simp add: m_def last_rev)
  qed
  with s y la lb show ?thesis by blast
qed

lemma trim_Nil_iff: "trim s = [] \<longleftrightarrow> list_all isSpace s"
proof -
  obtain a m b where d: "s = a @ m @ b" "list_all isSpace a" "list_all isSpace b"
    "m = [] \<or> (\<not> isSpace (hd m) \<and> \<not> isSpace (last m))"
    using trim_decomp by blast
  then have "trim s = m" by (simp add: trim_unique)
  moreover have "list_all isSpace s \<longleftrightarrow> m = []"
    using d by (cases m) auto
  ultimately show ?thesis by simp
qed

lemma trim_id: "s \<noteq> [] \<Longrightarrow> \<not> isSpace (hd s) \<Longrightarrow> \<not> isSpace (last s) \<Longrightarrow> trim s = s"
  using trim_unique [of "[]" "[]" s] by simp

subsection \<open>One match of the component pattern\<close>

lemma span_stop:
  assumes "list_all P xs" "ys = [] \<or> \<not> P (hd ys)"
  shows "takeWhile P (xs @ ys) = xs" "dropWhile P (xs @ ys) = ys"
  using assms by (induction xs) (cases ys; auto)+

lemma matchHere_decomp:
  assumes "matchHere s = Some (n, u, r)"
  obtains sg ip dot fp ws where
    "s = sg @ ip @ dot @ fp @ ws @ u @ r" "n = sg @ ip @ dot @ fp"
    "sg = [] \<or> sg = ''-''" "ip \<noteq> []" "list_all isDigit ip"
    "dot = [] \<or> dot = ''.''" "dot = [] \<longrightarrow> fp = []" "list_all isDigit fp"
    "list_all isSpace ws" "list_all isAlpha u" "r = [] \<or> \<not> isAlpha (hd r)"
proof -
  define sg where "sg = (if s \<noteq> [] \<and> hd s = CHR ''-'' then ''-'' else [])"
  define s1 where "s1 = (if s \<noteq> [] \<and> hd s = CHR ''-'' then tl s else s)"
  define ip where "ip = takeWhile isDigit s1"
  define s2 where "s2 = dropWhile isDigit s1"
  define dot where "dot = (if s2 \<noteq> [] \<and> hd s2 = CHR ''.'' then ''.'' else [])"
  define s3 where "s3 = (if s2 \<noteq> [] \<and> hd s2 = CHR ''.'' then tl s2 else s2)"
  define fp where "fp = takeWhile isDigit s3"
  define ws where "ws = takeWhile isSpace (dropWhile isDigit s3)"
  define s4 where "s4 = dropWhile isSpace (dropWhile isDigit s3)"
  from assms have res: "ip \<noteq> []" "n = sg @ ip @ dot @ fp" "u = takeWhile isAlpha s4"
    "r = dropWhile isAlpha s4"
    by (auto simp: matchHere_def Let_def sg_def s1_def ip_def s2_def dot_def s3_def fp_def s4_def
        split: if_splits)
  have e1: "s = sg @ s1" by (cases s) (auto simp: sg_def s1_def)
  have e2: "s1 = ip @ s2" by (simp add: ip_def s2_def)
  have e3: "s2 = dot @ s3" by (cases s2) (auto simp: dot_def s3_def)
  have e4: "s3 = fp @ ws @ s4" by (simp add: fp_def ws_def s4_def)
  have e5: "s4 = u @ r" by (simp add: res)
  have "fp = []" if "dot = []"
  proof -
    from that have "s3 = s2" by (auto simp: dot_def s3_def split: if_splits)
    moreover have "s2 = [] \<or> \<not> isDigit (hd s2)"
      unfolding s2_def using hd_dropWhile [of isDigit s1] by blast
    ultimately show ?thesis by (cases s2) (auto simp: fp_def)
  qed
  moreover have "r = [] \<or> \<not> isAlpha (hd r)"
    unfolding res using hd_dropWhile [of isAlpha s4] by blast
  moreover have "list_all isDigit ip" "list_all isDigit fp" "list_all isSpace ws" "list_all isAlpha u"
    by (auto simp: ip_def fp_def ws_def res list_all_iff dest: set_takeWhileD)
  moreover have "s = sg @ ip @ dot @ fp @ ws @ u @ r"
    using e1 e2 e3 e4 e5 by simp
  moreover have "sg = [] \<or> sg = ''-''" "dot = [] \<or> dot = ''.''"
    by (auto simp: sg_def dot_def)
  ultimately show ?thesis using res that by blast
qed

lemma matchHere_compose:
  assumes "ip \<noteq> []" "list_all isDigit ip" "dot = [] \<or> dot = ''.''" "dot = [] \<longrightarrow> fp = []"
    "list_all isDigit fp" "list_all isSpace ws" "u \<noteq> []" "list_all isAlpha u"
    "r = [] \<or> \<not> isAlpha (hd r)"
  shows "matchHere (ip @ dot @ fp @ ws @ u @ r) = Some (ip @ dot @ fp, u, r)"
proof -
  let ?s = "ip @ dot @ fp @ ws @ u @ r"
  from assms(1,2) have hd_ip: "isDigit (hd ip)" by (cases ip) auto
  from assms(7,8) have hd_u: "isAlpha (hd u)" by (cases u) auto
  have nd_u: "\<not> isDigit (hd u)" "\<not> isSpace (hd u)" "hd u \<noteq> CHR ''.''"
    using hd_u digit_not_alpha alpha_not_space by auto
  have h0: "?s \<noteq> []" "hd ?s \<noteq> CHR ''-''"
    using assms(1) hd_ip by auto
  have wsu: "ws @ u @ r \<noteq> []" "\<not> isDigit (hd (ws @ u @ r))" "hd (ws @ u @ r) \<noteq> CHR ''.''"
    using assms(6,7) nd_u by (cases ws; auto simp: digit_not_space)+
  have x: "dot @ fp @ ws @ u @ r = [] \<or> \<not> isDigit (hd (dot @ fp @ ws @ u @ r))"
    using assms(3,4) wsu by auto
  have t1: "takeWhile isDigit ?s = ip" and d1: "dropWhile isDigit ?s = dot @ fp @ ws @ u @ r"
    using span_stop [OF assms(2) x] by simp_all
  have t2: "takeWhile isDigit (fp @ ws @ u @ r) = fp"
    and d2: "dropWhile isDigit (fp @ ws @ u @ r) = ws @ u @ r"
    using span_stop [OF assms(5), of "ws @ u @ r"] wsu by simp_all
  have d3: "dropWhile isSpace (ws @ u @ r) = u @ r"
    using span_stop(2) [OF assms(6), of "u @ r"] assms(7) nd_u by simp
  have t4: "takeWhile isAlpha (u @ r) = u" and d4: "dropWhile isAlpha (u @ r) = r"
    using span_stop [OF assms(8) assms(9)] by simp_all
  show ?thesis
  proof (cases "dot = []")
    case True
    with assms(4) have fp: "fp = []" by simp
    show ?thesis
      using h0 assms(1) t1 d1 t2 d2 d3 t4 d4 wsu(3) unfolding True fp
      by (simp add: matchHere_def Let_def)
  next
    case False
    with assms(3) have dot: "dot = ''.''" by simp
    show ?thesis
      using h0 assms(1) t1 d1 t2 d2 d3 t4 d4 dot
      by (simp add: matchHere_def Let_def)
  qed
qed

lemma exec_matchHere: "matchHere s = Some (n, u, r) \<Longrightarrow> exec s = Some ([], n, u, r)"
  by (cases s) (auto simp: matchHere_def)

subsection \<open>The scanning loop\<close>

lemma trim_Nil [simp]: "trim [] = []"
  by (simp add: trim_def trimStart_def trimEnd_def)

lemma parseFloat_number:
  assumes "ip \<noteq> []" "list_all isDigit ip" "sg = [] \<or> sg = ''-''"
  shows "\<exists>v. parseFloat (sg @ ip @ rest) = Num v"
proof -
  from assms(1,2) obtain d ds where ip: "ip = d # ds" and d: "isDigit d"
    by (cases ip) auto
  from d have nd: "\<not> isSpace d" "d \<noteq> CHR ''-''" "d \<noteq> CHR ''+''"
    using digit_not_space digit_not_sign by auto
  from assms(3) show ?thesis
    using d nd by (auto simp: parseFloat_def Let_def trimStart_def ip)
qed

lemma scan_Nil: "scan input [] t m = Inr ([], t, m)"
  by (subst scan.simps) simp

lemma scan_step:
  assumes "exec s = Some (gap, n, u, r)" "trim gap = []" "n \<noteq> []" "parseFloat n = Num v"
    "UNIT_MAP (if toLowerCase u = [] then ''ms'' else toLowerCase u) = Some p"
  shows "scan input s t m = scan input r (num_add t (num_mul (Num v) (toNumber p))) True"
  using assms by (subst scan.simps) (simp add: Let_def)

lemma UNIT_MAP_own: "map_of UNIT_TABLE k = Some c \<Longrightarrow> UNIT_MAP k = Some (NumberValue c)"
  by (simp add: UNIT_MAP_def)

lemma scan_match:
  assumes "matchHere s = Some (n, u, r)" "parseFloat n = Num v" "u \<noteq> []"
    "map_of UNIT_TABLE (toLowerCase u) = Some k"
  shows "scan input s (Num t) m = scan input r (Num (t + v * k)) True"
proof -
  from assms(1) have n: "n \<noteq> []"
    by (auto elim: matchHere_decomp)
  from assms(3) have "toLowerCase u \<noteq> []" by (simp add: toLowerCase_def)
  with UNIT_MAP_own [OF assms(4)]
  have p: "UNIT_MAP (if toLowerCase u = [] then ''ms'' else toLowerCase u) = Some (NumberValue k)"
    by simp
  from scan_step [OF exec_matchHere [OF assms(1)] trim_Nil n assms(2) p, of input "Num t" m]
  show ?thesis by simp
qed

lemma exec_shorter: "exec s = Some (g, n, u, r) \<Longrightarrow> length r < length s"
proof (induction s arbitrary: g)
  case Nil
  then show ?case by simp
next
  case (Cons c cs)
  show ?case
  proof (cases "matchHere (c # cs)")
    case (Some q)
    with Cons.prems have m: "matchHere (c # cs) = Some (n, u, r)" by (cases q) auto
    then obtain sg ip dot fp ws where d: "c # cs = sg @ ip @ dot @ fp @ ws @ u @ r" "ip \<noteq> []"
      by (rule matchHere_decomp)
    have "length r < length (sg @ ip @ dot @ fp @ ws @ u @ r)"
      using d(2) by (cases ip) simp_all
    then show ?thesis by (simp only: d(1))
  next
    case None
    with Cons.prems obtain g' where "exec cs = Some (g', n, u, r)"
      by (auto split: option.splits)
    from Cons.IH [OF this] show ?thesis by simp
  qed
qed

lemma exec_number:
  assumes "exec s = Some (gap, n, u, r)"
  shows "n \<noteq> [] \<and> (\<exists>v. parseFloat n = Num v)"
  using assms
proof (induction s arbitrary: gap)
  case Nil
  then show ?case by simp
next
  case (Cons c cs)
  show ?case
  proof (cases "matchHere (c # cs)")
    case (Some q)
    with Cons.prems have "matchHere (c # cs) = Some (n, u, r)" by (cases q) auto
    then obtain sg ip dot fp where d: "n = sg @ ip @ dot @ fp" "sg = [] \<or> sg = ''-''"
      "ip \<noteq> []" "list_all isDigit ip"
      by (rule matchHere_decomp)
    from parseFloat_number [OF d(3,4,2), of "dot @ fp"] d(1,3) show ?thesis by simp
  next
    case None
    with Cons.prems obtain g' where "exec cs = Some (g', n, u, r)"
      by (auto split: option.splits)
    then show ?thesis by (rule Cons.IH)
  qed
qed

text \<open>One round of the loop, by the outcome of \<open>exec\<close>.\<close>

lemma scan_cases:
  obtains (finished) "exec s = None" "scan input s t m = Inr (s, t, m)"
  | (gap) g n u r where "exec s = Some (g, n, u, r)" "trim g \<noteq> []"
      "scan input s t m = Inl (UnexpectedCharacters (trim g) input)"
  | (unknown) g n u r v where "exec s = Some (g, n, u, r)" "trim g = []" "parseFloat n = Num v"
      "UNIT_MAP (if toLowerCase u = [] then ''ms'' else toLowerCase u) = None"
      "scan input s t m = Inl (UnknownUnit u input)"
  | (step) g n u r v p where "exec s = Some (g, n, u, r)" "trim g = []" "parseFloat n = Num v"
      "UNIT_MAP (if toLowerCase u = [] then ''ms'' else toLowerCase u) = Some p"
      "length r < length s"
      "scan input s t m = scan input r (num_add t (num_mul (Num v) (toNumber p))) True"
proof (cases "exec s")
  case None
  then have "scan input s t m = Inr (s, t, m)" by (subst scan.simps) simp
  with None show ?thesis by (rule finished)
next
  case (Some q)
  obtain g n u r where q: "q = (g, n, u, r)" by (cases q) auto
  note e = Some [unfolded q]
  from exec_number [OF e] obtain v where n: "n \<noteq> []" and v: "parseFloat n = Num v" by auto
  show ?thesis
  proof (cases "trim g = []")
    case False
    with e have "scan input s t m = Inl (UnexpectedCharacters (trim g) input)"
      by (subst scan.simps) simp
    with e False show ?thesis by (rule gap)
  next
    case True
    show ?thesis
    proof (cases "UNIT_MAP (if toLowerCase u = [] then ''ms'' else toLowerCase u)")
      case None
      with e True n v have "scan input s t m = Inl (UnknownUnit u input)"
        by (subst scan.simps) (simp add: Let_def)
      with e True v None show ?thesis by (rule unknown)
    next
      case (Some p)
      from e True v Some exec_shorter [OF e] scan_step [OF e True n v Some]
      show ?thesis by (rule step)
    qed
  qed
qed

lemma scan_input_irrelevant:
  "scan i1 s t m = Inr x \<Longrightarrow> scan i2 s t m = Inr x"
proof (induction "length s" arbitrary: s t m rule: less_induct)
  case less
  show ?case
  proof (cases rule: scan_cases [of s i1 t m])
    case finished
    then show ?thesis using less.prems by (subst scan.simps) simp
  next
    case (gap g n u r)
    with less.prems show ?thesis by simp
  next
    case (unknown g n u r v)
    with less.prems show ?thesis by simp
  next
    case (step g n u r v p)
    from exec_number [OF step(1)] have n: "n \<noteq> []" by simp
    from less.prems step(6)
    have "scan i1 r (num_add t (num_mul (Num v) (toNumber p))) True = Inr x" by simp
    from less.hyps [OF step(5) this] scan_step [OF step(1,2) n step(3,4), of i2 t m]
    show ?thesis by simp
  qed
qed

subsection \<open>The bare-number path\<close>

text \<open>
  Claim C2. The bare-number path should apply only to a text of digits with at most one
  decimal point, so that \<open>1.2.3\<close> is rejected. The test \<open>/^[\d.]+$/\<close> admits any number
  of points and \<open>parseFloat\<close> reads the longest numeric prefix: the code returns 1.2.
\<close>

theorem parseDuration_repeated_dots: "parseDuration ''1.2.3'' = Inr (Num (12 / 10))"
  by code_simp

subsection \<open>Single components\<close>

lemma parseDuration_compound:
  assumes "trim input \<noteq> []" "stripSign (trim input) = (neg, ps)" "\<not> testBare ps"
  shows "parseDuration input = parseCompound input ps neg"
  using assms by (simp add: parseDuration_def Let_def)

lemma parseCompound_done:
  assumes "scan input ps (Num 0) False = Inr ([], v, True)"
  shows "parseCompound input ps neg = Inr (if neg then num_neg v else v)"
  using assms by (simp add: parseCompound_def)

lemma UNIT_keys:
  assumes "map_of UNIT_TABLE k = Some v"
  shows "k \<noteq> [] \<and> list_all isLower k"
proof -
  have "list_all (\<lambda>(k, v). k \<noteq> [] \<and> list_all isLower k) UNIT_TABLE"
    by code_simp
  moreover from assms have "(k, v) \<in> set UNIT_TABLE"
    by (rule map_of_SomeD)
  ultimately show ?thesis
    by (auto simp: list_all_iff)
qed

lemma unit_token_alpha:
  assumes "map_of UNIT_TABLE (toLowerCase tok) = Some v"
  shows "tok \<noteq> [] \<and> list_all isAlpha tok"
proof -
  from UNIT_keys [OF assms] have "toLowerCase tok \<noteq> []" "list_all isLower (toLowerCase tok)"
    by simp_all
  then show ?thesis
    by (auto simp: toLowerCase_def list_all_iff intro: lowerChar_lower_alpha)
qed

lemma alpha_not_testBare:
  assumes "c \<in> set s" "isAlpha c"
  shows "\<not> testBare s"
  using assms alpha_not_bare by (auto simp: testBare_def list_all_iff)

lemma parseFloat_one: "parseFloat ''1'' = Num 1"
  by code_simp

lemma parse_one_unit:
  assumes "map_of UNIT_TABLE (toLowerCase tok) = Some k"
  shows "parseDuration (CHR ''1'' # tok) = Inr (Num k)"
proof -
  let ?s = "CHR ''1'' # tok"
  from unit_token_alpha [OF assms] have tok: "tok \<noteq> []" "list_all isAlpha tok" by simp_all
  have d1: "isDigit (CHR ''1'')" by (simp add: isDigit_def)
  from tok have "isAlpha (last tok)" by (auto simp: list_all_iff)
  then have "\<not> isSpace (last ?s)" using tok(1) alpha_not_space by simp
  moreover have "\<not> isSpace (hd ?s)" using d1 digit_not_space by simp
  ultimately have tr: "trim ?s = ?s" by (intro trim_id) simp_all
  have st: "stripSign ?s = (False, ?s)" by (simp add: stripSign_def)
  from tok have "\<exists>c \<in> set ?s. isAlpha c" by (cases tok) auto
  then have nb: "\<not> testBare ?s" using alpha_not_testBare by blast
  have "matchHere (''1'' @ [] @ [] @ [] @ tok @ []) = Some (''1'' @ [] @ [], tok, [])"
    using d1 tok by (intro matchHere_compose) simp_all
  then have mh: "matchHere ?s = Some (''1'', tok, [])" by simp
  have "scan ?s ?s (Num 0) False = scan ?s [] (Num (0 + 1 * k)) True"
    using mh parseFloat_one tok(1) assms by (rule scan_match)
  then have "scan ?s ?s (Num 0) False = Inr ([], Num k, True)" by (simp add: scan_Nil)
  then have "parseCompound ?s ?s False = Inr (Num k)" by (simp add: parseCompound_done)
  moreover have "parseDuration ?s = parseCompound ?s ?s False"
    using tr st nb by (intro parseDuration_compound) simp_all
  ultimately show ?thesis by simp
qed

lemma UNIT_MAP_values:
  "map_of UNIT_TABLE ''milliseconds'' = Some 1"
  "map_of UNIT_TABLE ''millisecond'' = Some 1"
  "map_of UNIT_TABLE ''msecs'' = Some 1"
  "map_of UNIT_TABLE ''msec'' = Some 1"
  "map_of UNIT_TABLE ''ms'' = Some 1"
  "map_of UNIT_TABLE ''seconds'' = Some 1000"
  "map_of UNIT_TABLE ''second'' = Some 1000"
  "map_of UNIT_TABLE ''secs'' = Some 1000"
  "map_of UNIT_TABLE ''sec'' = Some 1000"
  "map_of UNIT_TABLE ''s'' = Some 1000"
  "map_of UNIT_TABLE ''minutes'' = Some 60000"
  "map_of UNIT_TABLE ''minute'' = Some 60000"
  "map_of UNIT_TABLE ''mins'' = Some 60000"
  "map_of UNIT_TABLE ''min'' = Some 60000"
  "map_of UNIT_TABLE ''m'' = Some 60000"
  "map_of UNIT_TABLE ''hours'' = Some 3600000"
  "map_of UNIT_TABLE ''hour'' = Some 3600000"
  "map_of UNIT_TABLE ''hrs'' = Some 3600000"
  "map_of UNIT_TABLE ''hr'' = Some 3600000"
  "map_of UNIT_TABLE ''h'' = Some 3600000"
  "map_of UNIT_TABLE ''days'' = Some 86400000"
  "map_of UNIT_TABLE ''day'' = Some 86400000"
  "map_of UNIT_TABLE ''d'' = Some 86400000"
  "map_of UNIT_TABLE ''weeks'' = Some 604800000"
  "map_of UNIT_TABLE ''week'' = Some 604800000"
  "map_of UNIT_TABLE ''w'' = Some 604800000"
  "map_of UNIT_TABLE ''months'' = Some (36525 / 100 * 86400000 / 12)"
  "map_of UNIT_TABLE ''month'' = Some (36525 / 100 * 86400000 / 12)"
  "map_of UNIT_TABLE ''mo'' = Some (36525 / 100 * 86400000 / 12)"
  "map_of UNIT_TABLE ''years'' = Some (36525 / 100 * 86400000)"
  "map_of UNIT_TABLE ''year'' = Some (36525 / 100 * 86400000)"
  "map_of UNIT_TABLE ''yrs'' = Some (36525 / 100 * 86400000)"
  "map_of UNIT_TABLE ''yr'' = Some (36525 / 100 * 86400000)"
  "map_of UNIT_TABLE ''y'' = Some (36525 / 100 * 86400000)"
  by code_simp+

text \<open>
  Claim C5. For every unit family and every spelling \<open>tok\<close> of one of its tokens in any
  letter case (\<open>tok\<close> lowercased is a key of the family), \<open>parseDuration("1" + tok)\<close> is
  the family's constant: 1, 1000, 60000, 3600000, 86400000, 604800000,
  365.25 * 86400000 / 12 and 365.25 * 86400000 milliseconds.
\<close>

theorem unit_table_round_trip:
  "(toLowerCase tok \<in> {''milliseconds'', ''millisecond'', ''msecs'', ''msec'', ''ms''}
      \<longrightarrow> parseDuration (CHR ''1'' # tok) = Inr (Num 1))
   \<and> (toLowerCase tok \<in> {''seconds'', ''second'', ''secs'', ''sec'', ''s''}
      \<longrightarrow> parseDuration (CHR ''1'' # tok) = Inr (Num 1000))
   \<and> (toLowerCase tok \<in> {''minutes'', ''minute'', ''mins'', ''min'', ''m''}
      \<longrightarrow> parseDuration (CHR ''1'' # tok) = Inr (Num 60000))
   \<and> (toLowerCase tok \<in> {''hours'', ''hour'', ''hrs'', ''hr'', ''h''}
      \<longrightarrow> parseDuration (CHR ''1'' # tok) = Inr (Num 3600000))
   \<and> (toLowerCase tok \<in> {''days'', ''day'', ''d''}
      \<longrightarrow> parseDuration (CHR ''1'' # tok) = Inr (Num 86400000))
   \<and> (toLowerCase tok \<in> {''weeks'', ''week'', ''w''}
      \<longrightarrow> parseDuration (CHR ''1'' # tok) = Inr (Num 604800000))
   \<and> (toLowerCase tok \<in> {''months'', ''month'', ''mo''}
      \<longrightarrow> parseDuration (CHR ''1'' # tok) = Inr (Num (36525 / 100 * 86400000 / 12)))
   \<and> (toLowerCase tok \<in> {''years'', ''year'', ''yrs'', ''yr'', ''y''}
      \<longrightarrow> parseDuration (CHR ''1'' # tok) = Inr (Num (36525 / 100 * 86400000)))"
proof (intro conjI impI)
  have fam: "parseDuration (CHR ''1'' # tok) = Inr (Num k)"
    if "toLowerCase tok \<in> S" "\<forall>x \<in> S. map_of UNIT_TABLE x = Some k" for S k
    using that by (intro parse_one_unit) blast
  show "parseDuration (CHR ''1'' # tok) = Inr (Num 1)"
    if "toLowerCase tok \<in> {''milliseconds'', ''millisecond'', ''msecs'', ''msec'', ''ms''}"
    using that by (rule fam) (simp only: ball_simps UNIT_MAP_values simp_thms)
  show "parseDuration (CHR ''1'' # tok) = Inr (Num 1000)"
    if "toLowerCase tok \<in> {''seconds'', ''second'', ''secs'', ''sec'', ''s''}"
    using that by (rule fam) (simp only: ball_simps UNIT_MAP_values simp_thms)
  show "parseDuration (CHR ''1'' # tok) = Inr (Num 60000)"
    if "toLowerCase tok \<in> {''minutes'', ''minute'', ''mins'', ''min'', ''m''}"
    using that by (rule fam) (simp only: ball_simps UNIT_MAP_values simp_thms)
  show "parseDuration (CHR ''1'' # tok) = Inr (Num 3600000)"
    if "toLowerCase tok \<in> {''hours'', ''hour'', ''hrs'', ''hr'', ''h''}"
    using that by (rule fam) (simp only: ball_simps UNIT_MAP_values simp_thms)
  show "parseDuration (CHR ''1'' # tok) = Inr (Num 86400000)"
    if "toLowerCase tok \<in> {''days'', ''day'', ''d''}"
    using that by (rule fam) (simp only: ball_simps UNIT_MAP_values simp_thms)
  show "parseDuration (CHR ''1'' # tok) = Inr (Num 604800000)"
    if "toLowerCase tok \<in> {''weeks'', ''week'', ''w''}"
    using that by (rule fam) (simp only: ball_simps UNIT_MAP_values simp_thms)
  show "parseDuration (CHR ''1'' # tok) = Inr (Num (36525 / 100 * 86400000 / 12))"
    if "toLowerCase tok \<in> {''months'', ''month'', ''mo''}"
    using that by (rule fam) (simp only: ball_simps UNIT_MAP_values simp_thms)
  show "parseDuration (CHR ''1'' # tok) = Inr (Num (36525 / 100 * 86400000))"
    if "toLowerCase tok \<in> {''years'', ''year'', ''yrs'', ''yr'', ''y''}"
    using that by (rule fam) (simp only: ball_simps UNIT_MAP_values simp_thms)
qed


theorem unit_table_round_trip_witness:
  "toLowerCase ''MSecs'' \<in> {''milliseconds'', ''millisecond'', ''msecs'', ''msec'', ''ms''}
   \<and> parseDuration ''1MSecs'' = Inr (Num 1)
   \<and> toLowerCase ''Sec'' \<in> {''seconds'', ''second'', ''secs'', ''sec'', ''s''}
   \<and> parseDuration ''1Sec'' = Inr (Num 1000)
   \<and> toLowerCase ''MINUTES'' \<in> {''minutes'', ''minute'', ''mins'', ''min'', ''m''}
   \<and> parseDuration ''1MINUTES'' = Inr (Num 60000)
   \<and> toLowerCase ''Hour'' \<in> {''hours'', ''hour'', ''hrs'', ''hr'', ''h''}
   \<and> parseDuration ''1Hour'' = Inr (Num 3600000)
   \<and> toLowerCase ''D'' \<in> {''days'', ''day'', ''d''}
   \<and> parseDuration ''1D'' = Inr (Num 86400000)
   \<and> toLowerCase ''wEEk'' \<in> {''weeks'', ''week'', ''w''}
   \<and> parseDuration ''1wEEk'' = Inr (Num 604800000)
   \<and> toLowerCase ''Mo'' \<in> {''months'', ''month'', ''mo''}
   \<and> parseDuration ''1Mo'' = Inr (Num 2629800000)
   \<and> toLowerCase ''YRS'' \<in> {''years'', ''year'', ''yrs'', ''yr'', ''y''}
   \<and> parseDuration ''1YRS'' = Inr (Num 31557600000)"
proof -
  have l: "toLowerCase ''MSecs'' = ''msecs''" "toLowerCase ''Sec'' = ''sec''"
    "toLowerCase ''MINUTES'' = ''minutes''" "toLowerCase ''Hour'' = ''hour''"
    "toLowerCase ''D'' = ''d''" "toLowerCase ''wEEk'' = ''week''"
    "toLowerCase ''Mo'' = ''mo''" "toLowerCase ''YRS'' = ''yrs''"
    by code_simp+
  show ?thesis
    using unit_table_round_trip [of "''MSecs''"] unit_table_round_trip [of "''Sec''"]
      unit_table_round_trip [of "''MINUTES''"] unit_table_round_trip [of "''Hour''"]
      unit_table_round_trip [of "''D''"] unit_table_round_trip [of "''wEEk''"]
      unit_table_round_trip [of "''Mo''"] unit_table_round_trip [of "''YRS''"]
    unfolding l by simp
qed


lemma singleComponentE:
  assumes "singleComponent a"
  obtains n u v k where "matchHere a = Some (n, u, [])" "parseFloat n = Num v" "u \<noteq> []"
    "map_of UNIT_TABLE (toLowerCase u) = Some k" "a \<noteq> []" "isDigit (hd a)" "isAlpha (last a)"
    "\<And>r. r = [] \<or> \<not> isAlpha (hd r) \<Longrightarrow> matchHere (a @ r) = Some (n, u, r)"
    "n \<noteq> []" "isDigit (hd n)"
proof -
  from assms obtain n u k where m: "matchHere a = Some (n, u, [])" and h: "hd a \<noteq> CHR ''-''"
    and u: "u \<noteq> []" and k: "map_of UNIT_TABLE (toLowerCase u) = Some k"
    by (auto simp: singleComponent_def split: option.splits)
  from m obtain sg ip dot fp ws where d: "a = sg @ ip @ dot @ fp @ ws @ u @ []"
    "n = sg @ ip @ dot @ fp" "sg = [] \<or> sg = ''-''" "ip \<noteq> []" "list_all isDigit ip"
    "dot = [] \<or> dot = ''.''" "dot = [] \<longrightarrow> fp = []" "list_all isDigit fp"
    "list_all isSpace ws" "list_all isAlpha u"
    by (rule matchHere_decomp)
  from d(1,3) h have sg: "sg = []" by auto
  from parseFloat_number [OF d(4,5) d(3), of "dot @ fp"] obtain v where v: "parseFloat n = Num v"
    using d(2) by auto
  have a: "a = ip @ dot @ fp @ ws @ u" using d(1) sg by simp
  have "a \<noteq> []" using a d(4) by simp
  moreover have "isDigit (hd a)" using a d(4,5) by (cases ip) auto
  moreover have "isAlpha (last a)" using a u d(10) by (auto simp: list_all_iff)
  moreover have "matchHere (a @ r) = Some (n, u, r)" if "r = [] \<or> \<not> isAlpha (hd r)" for r
    using matchHere_compose [OF d(4,5,6,7,8,9) u d(10) that] a d(2) sg by simp
  moreover have "n \<noteq> []" "isDigit (hd n)"
    using d(2,4,5) sg by (cases ip; simp)+
  ultimately show ?thesis using m v u k that by blast
qed

lemma parse_digit_led:
  assumes "s \<noteq> []" "isDigit (hd s)" "isAlpha (last s)"
    "scan s s (Num 0) False = Inr ([], v, True)"
  shows "parseDuration s = Inr v"
proof -
  have tr: "trim s = s"
    using assms(1-3) digit_not_space alpha_not_space by (intro trim_id) auto
  have st: "stripSign s = (False, s)"
    using assms(2) digit_not_sign by (auto simp: stripSign_def)
  have nb: "\<not> testBare s"
    using assms(1,3) by (intro alpha_not_testBare [of "last s"]) simp_all
  have "parseDuration s = parseCompound s s False"
    using assms(1) tr st nb by (intro parseDuration_compound) simp_all
  with assms(4) show ?thesis by (simp add: parseCompound_done)
qed

text \<open>
  Claim C3. Compound additivity: if \<open>a\<close> and \<open>b\<close> are each a single component (an
  unsigned number and a recognized unit), then \<open>a\<close>, \<open>b\<close> and \<open>a + b\<close> all parse, and
  the value of the concatenation is the sum of the two values; the units need not even
  differ. For example \<open>parseDuration("1h30m") = 3600000 + 1800000\<close>.
\<close>

theorem compound_additivity:
  "(singleComponent a \<and> singleComponent b \<longrightarrow>
      (\<exists>x y. parseDuration a = Inr (Num x) \<and> parseDuration b = Inr (Num y)
         \<and> parseDuration (a @ b) = Inr (Num (x + y))))
   \<and> parseDuration ''1h30m'' = Inr (Num (3600000 + 1800000))"
proof (intro conjI impI)
  assume ab: "singleComponent a \<and> singleComponent b"
  from ab obtain na ua va ka where a: "matchHere a = Some (na, ua, [])" "parseFloat na = Num va"
    "ua \<noteq> []" "map_of UNIT_TABLE (toLowerCase ua) = Some ka" "a \<noteq> []" "isDigit (hd a)"
    "isAlpha (last a)"
    "\<And>r. r = [] \<or> \<not> isAlpha (hd r) \<Longrightarrow> matchHere (a @ r) = Some (na, ua, r)"
    by (auto elim: singleComponentE)
  from ab obtain nb ub vb kb where b: "matchHere b = Some (nb, ub, [])" "parseFloat nb = Num vb"
    "ub \<noteq> []" "map_of UNIT_TABLE (toLowerCase ub) = Some kb" "b \<noteq> []" "isDigit (hd b)"
    "isAlpha (last b)"
    by (auto elim: singleComponentE)
  have sa: "scan i a (Num t) m = scan i [] (Num (t + va * ka)) True" for i t m
    using a(1-4) by (rule scan_match)
  have sb: "scan i b (Num t) m = scan i [] (Num (t + vb * kb)) True" for i t m
    using b(1-4) by (rule scan_match)
  have "matchHere (a @ b) = Some (na, ua, b)"
    using b(6) digit_not_alpha by (intro a(8)) auto
  then have sab: "scan i (a @ b) (Num t) m = scan i b (Num (t + va * ka)) True" for i t m
    using a(2-4) by (rule scan_match)
  have pa: "parseDuration a = Inr (Num (va * ka))"
    using a(5-7) by (rule parse_digit_led) (simp add: sa scan_Nil)
  have pb: "parseDuration b = Inr (Num (vb * kb))"
    using b(5-7) by (rule parse_digit_led) (simp add: sb scan_Nil)
  have "parseDuration (a @ b) = Inr (Num (va * ka + vb * kb))"
  proof (rule parse_digit_led)
    show "a @ b \<noteq> []" using a(5) by simp
    show "isDigit (hd (a @ b))" using a(5,6) by simp
    show "isAlpha (last (a @ b))" using b(5,7) by simp
    show "scan (a @ b) (a @ b) (Num 0) False = Inr ([], Num (va * ka + vb * kb), True)"
      by (simp add: sab sb scan_Nil)
  qed
  with pa pb show "\<exists>x y. parseDuration a = Inr (Num x) \<and> parseDuration b = Inr (Num y)
         \<and> parseDuration (a @ b) = Inr (Num (x + y))"
    by blast
next
  show "parseDuration ''1h30m'' = Inr (Num (3600000 + 1800000))" by code_simp
qed

theorem compound_additivity_witness:
  "singleComponent ''1.5 h'' \<and> singleComponent ''30m''
   \<and> (\<exists>x y. parseDuration ''1.5 h'' = Inr (Num x) \<and> parseDuration ''30m'' = Inr (Num y)
         \<and> parseDuration (''1.5 h'' @ ''30m'') = Inr (Num (x + y)))"
proof -
  have c: "singleComponent ''1.5 h''" "singleComponent ''30m''"
    by code_simp+
  with compound_additivity [of "''1.5 h''" "''30m''"] show ?thesis by blast
qed

subsection \<open>The leading sign\<close>

lemma parseCompound_negate:
  assumes "parseCompound i1 ps False = Inr v"
  shows "parseCompound i2 ps True = Inr (num_neg v)"
proof (cases "scan i1 ps (Num 0) False")
  case (Inl e)
  with assms show ?thesis by (simp add: parseCompound_def)
next
  case (Inr x)
  from scan_input_irrelevant [OF Inr] have "scan i2 ps (Num 0) False = Inr x" .
  with assms Inr show ?thesis
    by (cases x) (auto simp: parseCompound_def split: if_splits)
qed

lemma sign_prefix_negates:
  assumes "CHR ''-'' \<notin> set X" "CHR ''+'' \<notin> set X" "parseDuration X = Inr v"
  shows "parseDuration (CHR ''-'' # X) = Inr (num_neg v)"
proof -
  obtain a m b where d: "X = a @ m @ b" "list_all isSpace a" "list_all isSpace b"
    "m = [] \<or> (\<not> isSpace (hd m) \<and> \<not> isSpace (last m))"
    using trim_decomp by blast
  have tX: "trim X = m" using d by (simp add: trim_unique)
  have m: "m \<noteq> []"
    using assms(3) tX by (auto simp: parseDuration_def)
  with d(1) have "hd m \<in> set X" by simp
  with assms(1,2) have hdm: "hd m \<noteq> CHR ''-''" "hd m \<noteq> CHR ''+''" by auto
  then have sX: "stripSign m = (False, m)" by (simp add: stripSign_def)
  have "trim ([] @ (CHR ''-'' # a @ m) @ b) = CHR ''-'' # a @ m"
    using d(3,4) m by (intro trim_unique) simp_all
  then have tN: "trim (CHR ''-'' # X) = CHR ''-'' # a @ m" using d(1) by simp
  have "trim (a @ m @ []) = m"
    using d(2,4) by (intro trim_unique) simp_all
  then have sN: "stripSign (CHR ''-'' # a @ m) = (True, m)" by (simp add: stripSign_def)
  show ?thesis
  proof (cases "\<not> isNaN (parseFloat m) \<and> testBare m")
    case True
    with assms(3) tX m sX have "v = parseFloat m" by (simp add: parseDuration_def Let_def)
    with True tN sN show ?thesis by (simp add: parseDuration_def Let_def)
  next
    case False
    with assms(3) tX m sX have "parseCompound X m False = Inr v"
      by (auto simp: parseDuration_def Let_def split: if_splits)
    then have "parseCompound (CHR ''-'' # X) m True = Inr (num_neg v)"
      by (rule parseCompound_negate)
    with False tN sN show ?thesis
      by (auto simp: parseDuration_def Let_def)
  qed
qed

text \<open>
  Claim C4. Sign distributivity: for every text \<open>X\<close> without sign characters that
  parses to \<open>v\<close>, \<open>parseDuration("-" + X)\<close> is \<open>-v\<close>; this is stated for a finite \<open>v\<close>
  and then for every number \<open>w\<close>.
\<close>

theorem sign_distributivity:
  "(CHR ''-'' \<notin> set X \<and> CHR ''+'' \<notin> set X \<and> parseDuration X = Inr (Num v)
     \<longrightarrow> parseDuration (CHR ''-'' # X) = Inr (Num (- v)))
   \<and> (CHR ''-'' \<notin> set X \<and> CHR ''+'' \<notin> set X \<and> parseDuration X = Inr w
     \<longrightarrow> parseDuration (CHR ''-'' # X) = Inr (num_neg w))"
  using sign_prefix_negates [of X "Num v"] sign_prefix_negates [of X w] by simp

theorem sign_distributivity_witness:
  "CHR ''-'' \<notin> set '' 1h 30m '' \<and> CHR ''+'' \<notin> set '' 1h 30m ''
   \<and> parseDuration '' 1h 30m '' = Inr (Num 5400000)
   \<and> parseDuration (CHR ''-'' # '' 1h 30m '') = Inr (Num (- 5400000))
   \<and> parseDuration (CHR ''-'' # '' 1h 30m '') = Inr (num_neg (Num 5400000))"
proof -
  have p: "parseDuration '' 1h 30m '' = Inr (Num 5400000)" by code_simp
  with sign_distributivity [of "'' 1h 30m ''" 5400000 "Num 5400000"] show ?thesis by simp
qed

subsection \<open>Signs inside the text\<close>

lemma not_sign:
  "isDigit c \<Longrightarrow> c \<noteq> CHR ''+'' \<and> c \<noteq> CHR ''-''"
  "isSpace c \<Longrightarrow> c \<noteq> CHR ''+'' \<and> c \<noteq> CHR ''-''"
  "isAlpha c \<Longrightarrow> c \<noteq> CHR ''+'' \<and> c \<noteq> CHR ''-''"
  by auto

lemma straySign_clean_prefix:
  "\<forall>c \<in> set xs. c \<noteq> CHR ''+'' \<and> c \<noteq> CHR ''-'' \<Longrightarrow> straySign (xs @ ys) = straySign ys"
  by (induction xs) auto

lemma straySign_has_sign: "straySign s \<Longrightarrow> \<exists>c \<in> set s. c = CHR ''+'' \<or> c = CHR ''-''"
  by (induction s) auto

lemma sign_trim_nonempty:
  assumes "c \<in> set s" "c = CHR ''+'' \<or> c = CHR ''-''"
  shows "trim s \<noteq> []"
proof -
  from assms have "\<not> isSpace c" by auto
  with assms(1) show ?thesis by (auto simp: trim_Nil_iff list_all_iff)
qed

lemma matchHere_stray:
  assumes "matchHere s = Some (n, u, r)" "straySign s"
  shows "straySign r"
proof -
  from assms(1) obtain sg ip dot fp ws where d: "s = sg @ ip @ dot @ fp @ ws @ u @ r"
    "sg = [] \<or> sg = ''-''" "ip \<noteq> []" "list_all isDigit ip"
    "dot = [] \<or> dot = ''.''" "list_all isDigit fp" "list_all isSpace ws" "list_all isAlpha u"
    by (rule matchHere_decomp)
  have clean: "\<forall>c \<in> set (ip @ dot @ fp @ ws @ u). c \<noteq> CHR ''+'' \<and> c \<noteq> CHR ''-''"
    using d(4-8) not_sign by (auto simp: list_all_iff)
  have "straySign (ip @ dot @ fp @ ws @ u @ r)"
  proof (cases "sg = []")
    case True
    with assms(2) d(1) show ?thesis by simp
  next
    case False
    with d(2) have sg: "sg = ''-''" by simp
    from d(3,4) obtain x xs where ip: "ip = x # xs" "isDigit x" by (cases ip) auto
    with assms(2) d(1) sg show ?thesis by simp
  qed
  then have "straySign ((ip @ dot @ fp @ ws @ u) @ r)" by simp
  with clean show ?thesis by (simp only: straySign_clean_prefix)
qed

lemma exec_stray:
  assumes "exec s = Some (gap, n, u, r)" "straySign s"
  shows "(\<exists>c \<in> set gap. c = CHR ''+'' \<or> c = CHR ''-'') \<or> straySign r"
  using assms
proof (induction s arbitrary: gap)
  case Nil
  then show ?case by simp
next
  case (Cons c cs)
  show ?case
  proof (cases "matchHere (c # cs)")
    case (Some q)
    with Cons.prems(1) have "matchHere (c # cs) = Some (n, u, r)" by (cases q) auto
    from matchHere_stray [OF this Cons.prems(2)] show ?thesis ..
  next
    case None
    with Cons.prems(1) obtain g' where g: "exec cs = Some (g', n, u, r)" "gap = c # g'"
      by (auto split: option.splits)
    show ?thesis
    proof (cases "c = CHR ''+'' \<or> c = CHR ''-''")
      case True
      with g(2) show ?thesis by auto
    next
      case False
      with Cons.prems(2) have "straySign cs" by auto
      from Cons.IH [OF g(1) this] g(2) show ?thesis by auto
    qed
  qed
qed

lemma scan_stray: "straySign s \<Longrightarrow> strayOutcome input (scan input s t m)"
proof (induction "length s" arbitrary: s t m rule: less_induct)
  case less
  show ?case
  proof (cases rule: scan_cases [of s input t m])
    case finished
    with less.prems show ?thesis by (simp add: strayOutcome_def)
  next
    case (gap g n u r)
    then show ?thesis by (simp add: strayOutcome_def)
  next
    case (unknown g n u r v)
    then show ?thesis by (simp add: strayOutcome_def)
  next
    case (step g n u r v p)
    from exec_stray [OF step(1) less.prems] step(2) sign_trim_nonempty
    have "straySign r" by blast
    from less.hyps [OF step(5) this] step(6) show ?thesis by simp
  qed
qed

lemma stray_sign_fails:
  assumes "trim input \<noteq> []" "straySign (snd (stripSign (trim input)))"
  shows "(\<exists>g. parseDuration input = Inl (UnexpectedCharacters g input))
         \<or> (\<exists>w. parseDuration input = Inl (UnknownUnit w input))"
proof -
  obtain neg ps where st: "stripSign (trim input) = (neg, ps)" by (cases "stripSign (trim input)") auto
  with assms have s: "straySign ps" by simp
  from straySign_has_sign [OF s] obtain c where c: "c \<in> set ps" "c = CHR ''+'' \<or> c = CHR ''-''"
    by blast
  then have "\<not> isBareChar c" by (auto simp: isBareChar_def)
  with c(1) have "\<not> testBare ps" by (auto simp: testBare_def list_all_iff)
  with assms st have p: "parseDuration input = parseCompound input ps neg"
    by (intro parseDuration_compound) simp_all
  show ?thesis
  proof (cases "scan input ps (Num 0) False")
    case (Inl e)
    with scan_stray [OF s, of input "Num 0" False] show ?thesis
      unfolding p by (auto simp: strayOutcome_def parseCompound_def)
  next
    case (Inr x)
    obtain r t m where x: "x = (r, t, m)" by (cases x) auto
    with Inr scan_stray [OF s, of input "Num 0" False] have "straySign r"
      by (simp add: strayOutcome_def)
    from straySign_has_sign [OF this] sign_trim_nonempty have "trim r \<noteq> []" by blast
    with Inr x show ?thesis unfolding p by (simp add: parseCompound_def)
  qed
qed

lemma parseFloat_minus:
  assumes "n \<noteq> []" "isDigit (hd n)"
  shows "parseFloat (CHR ''-'' # n) = num_neg (parseFloat n)"
proof -
  from assms obtain d ds where n: "n = d # ds" "isDigit d" by (cases n) auto
  then have "\<not> isSpace d" "d \<noteq> CHR ''-''" "d \<noteq> CHR ''+''"
    using digit_not_space digit_not_sign by auto
  then show ?thesis
    by (simp add: parseFloat_def Let_def trimStart_def n)
qed

lemma matchHere_minus:
  assumes "matchHere b = Some (n, u, r)" "hd b \<noteq> CHR ''-''"
  shows "matchHere (CHR ''-'' # b) = Some (CHR ''-'' # n, u, r)"
proof -
  from assms(1) have "b \<noteq> []" by (auto simp: matchHere_def)
  with assms show ?thesis
    by (auto simp: matchHere_def Let_def split: if_splits)
qed

lemma signed_component:
  assumes "singleComponent a" "singleComponent b"
  shows "\<exists>x y. parseDuration a = Inr (Num x) \<and> parseDuration b = Inr (Num y)
           \<and> parseDuration (a @ CHR ''-'' # b) = Inr (Num (x - y))"
proof -
  from assms(1) obtain na ua va ka where a: "matchHere a = Some (na, ua, [])" "parseFloat na = Num va"
    "ua \<noteq> []" "map_of UNIT_TABLE (toLowerCase ua) = Some ka" "a \<noteq> []" "isDigit (hd a)"
    "isAlpha (last a)"
    "\<And>r. r = [] \<or> \<not> isAlpha (hd r) \<Longrightarrow> matchHere (a @ r) = Some (na, ua, r)"
    by (auto elim: singleComponentE)
  from assms(2) obtain nb ub vb kb where b: "matchHere b = Some (nb, ub, [])" "parseFloat nb = Num vb"
    "ub \<noteq> []" "map_of UNIT_TABLE (toLowerCase ub) = Some kb" "b \<noteq> []" "isDigit (hd b)"
    "isAlpha (last b)"
    and nb: "nb \<noteq> []" "isDigit (hd nb)"
    by (auto elim: singleComponentE)
  have hb: "hd b \<noteq> CHR ''-''" using b(6) by auto
  have mb: "matchHere (CHR ''-'' # b) = Some (CHR ''-'' # nb, ub, [])"
    using b(1) hb by (rule matchHere_minus)
  have fb: "parseFloat (CHR ''-'' # nb) = Num (- vb)"
    using parseFloat_minus [OF nb] b(2) by simp
  have sa: "scan i a (Num t) m = scan i [] (Num (t + va * ka)) True" for i t m
    using a(1-4) by (rule scan_match)
  have sb: "scan i b (Num t) m = scan i [] (Num (t + vb * kb)) True" for i t m
    using b(1-4) by (rule scan_match)
  have smb: "scan i (CHR ''-'' # b) (Num t) m = scan i [] (Num (t + (- vb) * kb)) True" for i t m
    using mb fb b(3,4) by (rule scan_match)
  have "matchHere (a @ CHR ''-'' # b) = Some (na, ua, CHR ''-'' # b)"
    by (intro a(8)) simp
  then have sab: "scan i (a @ CHR ''-'' # b) (Num t) m = scan i (CHR ''-'' # b) (Num (t + va * ka)) True"
    for i t m
    using a(2-4) by (rule scan_match)
  have pa: "parseDuration a = Inr (Num (va * ka))"
    using a(5-7) by (rule parse_digit_led) (simp add: sa scan_Nil)
  have pb: "parseDuration b = Inr (Num (vb * kb))"
    using b(5-7) by (rule parse_digit_led) (simp add: sb scan_Nil)
  have "parseDuration (a @ CHR ''-'' # b) = Inr (Num (va * ka - vb * kb))"
  proof (rule parse_digit_led)
    show "a @ CHR ''-'' # b \<noteq> []" by simp
    show "isDigit (hd (a @ CHR ''-'' # b))" using a(5,6) by simp
    show "isAlpha (last (a @ CHR ''-'' # b))" using b(5,7) by simp
    show "scan (a @ CHR ''-'' # b) (a @ CHR ''-'' # b) (Num 0) False
        = Inr ([], Num (va * ka - vb * kb), True)"
      by (simp add: sab smb scan_Nil)
  qed
  with pa pb show ?thesis by blast
qed

text \<open>
  Claim C1, as amended. If the text after the leading sign contains a \<open>+\<close>, or a \<open>-\<close>
  that no digit follows, then \<open>parseDuration\<close> fails, with the unexpected-characters or
  the unknown-unit error. A \<open>-\<close> that a digit follows is matched by the component
  pattern as the sign of that component: for single components \<open>a\<close> and \<open>b\<close>,
  \<open>parseDuration(a + "-" + b)\<close> is the value of \<open>a\<close> minus the value of \<open>b\<close>.
\<close>

theorem stray_sign_rejected:
  "(trim input \<noteq> [] \<and> straySign (snd (stripSign (trim input)))
      \<longrightarrow> (\<exists>g. parseDuration input = Inl (UnexpectedCharacters g input))
          \<or> (\<exists>w. parseDuration input = Inl (UnknownUnit w input)))
   \<and> (singleComponent a \<and> singleComponent b
      \<longrightarrow> (\<exists>x y. parseDuration a = Inr (Num x) \<and> parseDuration b = Inr (Num y)
             \<and> parseDuration (a @ CHR ''-'' # b) = Inr (Num (x - y))))"
  using stray_sign_fails signed_component by blast

theorem stray_sign_rejected_witness:
  "trim '' 1h +30m'' \<noteq> [] \<and> straySign (snd (stripSign (trim '' 1h +30m'')))
   \<and> parseDuration '' 1h +30m'' = Inl (UnexpectedCharacters ''+'' '' 1h +30m'')
   \<and> trim ''-1h- 30m'' \<noteq> [] \<and> straySign (snd (stripSign (trim ''-1h- 30m'')))
   \<and> parseDuration ''-1h- 30m'' = Inl (UnexpectedCharacters ''-'' ''-1h- 30m'')
   \<and> singleComponent ''2 days'' \<and> singleComponent ''12h''
   \<and> (\<exists>x y. parseDuration ''2 days'' = Inr (Num x) \<and> parseDuration ''12h'' = Inr (Num y)
         \<and> parseDuration (''2 days'' @ CHR ''-'' # ''12h'') = Inr (Num (x - y)))"
proof -
  have h: "trim '' 1h +30m'' \<noteq> []" "straySign (snd (stripSign (trim '' 1h +30m'')))"
    "trim ''-1h- 30m'' \<noteq> []" "straySign (snd (stripSign (trim ''-1h- 30m'')))"
    "singleComponent ''2 days''" "singleComponent ''12h''"
    by code_simp+
  have p: "parseDuration '' 1h +30m'' = Inl (UnexpectedCharacters ''+'' '' 1h +30m'')"
    "parseDuration ''-1h- 30m'' = Inl (UnexpectedCharacters ''-'' ''-1h- 30m'')"
    by code_simp+
  show ?thesis
    using h p stray_sign_rejected [of "'' 1h +30m''" "''2 days''" "''12h''"]
      stray_sign_rejected [of "''-1h- 30m''" "''2 days''" "''12h''"]
    by blast
qed

text \<open>
  Claim C1 as stated fails: \<open>1h-30m\<close> has a \<open>-\<close> after its first component and is
  accepted, the second component counting negatively.
\<close>

theorem internal_minus_counterexample: "parseDuration ''1h-30m'' = Inr (Num 1800000)"
  by code_simp

section \<open>Instants and windows\<close>

lemma toMillis_Time_new: "toMillis (Time_new (Num x)) = Num (real_of_int \<lfloor>x\<rfloor>)"
  by (simp add: toMillis_def Time_new_def)

lemma Math_abs_neg: "Math_abs (num_neg v) = Math_abs v"
  by (cases v) simp_all

lemma Math_abs_sub_commute: "Math_abs (num_sub a b) = Math_abs (num_sub b a)"
  by (cases a; cases b) (simp_all add: num_sub_def)


lemma parse_minus_100s: "parseDuration ''-100s'' = Inr (Num (- 100000))"
  by code_simp

lemma parse_100s: "parseDuration ''100s'' = Inr (Num 100000)"
  by code_simp




text \<open>
  Claim C8. For every instant \<open>t\<close>, every duration input \<open>d\<close> that normalizes to \<open>w\<close>
  milliseconds and every anchor \<open>a\<close>, \<open>t.isWithin(d, a)\<close> is true exactly when
  \<open>|t - a| \<le> |w|\<close> (the anchor is the clock reading when none is given); a duration
  and its negation give the same answer, and the test is symmetric in instant and anchor.
\<close>

theorem isWithin_symmetric_window:
  "(normalizeToMillis d = Inr w \<longrightarrow>
      isWithin now t d (Some a)
        = Inr (num_le (Math_abs (num_sub (toMillis t) (otherMs a))) (Math_abs w)))
   \<and> (toMillis t = Num x \<and> otherMs a = Num y \<and> normalizeToMillis d = Inr (Num v) \<longrightarrow>
      isWithin now t d (Some a) = Inr (\<bar>x - y\<bar> \<le> \<bar>v\<bar>))
   \<and> (toMillis t = Num x \<and> normalizeToMillis d = Inr (Num v) \<longrightarrow>
      isWithin now t d None = Inr (\<bar>x - now\<bar> \<le> \<bar>v\<bar>))
   \<and> (normalizeToMillis d = Inr w \<and> normalizeToMillis d' = Inr (num_neg w) \<longrightarrow>
      isWithin now t d' anchor = isWithin now t d anchor)
   \<and> isWithin now t d (Some (OfTime t')) = isWithin now t' d (Some (OfTime t))"
proof (intro conjI impI)
  show "isWithin now t d (Some (OfTime t')) = isWithin now t' d (Some (OfTime t))"
    using Math_abs_sub_commute [of "Time.ms t" "Time.ms t'"]
    by (simp add: isWithin_def Let_def otherMs_def split: sum.splits)
qed (auto simp: isWithin_def Let_def toMillis_def Math_abs_neg)

theorem isWithin_symmetric_window_witness:
  "normalizeToMillis (Str ''-100s'') = Inr (Num (- 100000))
   \<and> normalizeToMillis (Str ''100s'') = Inr (num_neg (Num (- 100000)))
   \<and> toMillis (Time_millis (Num 950000)) = Num 950000
   \<and> otherMs (OfDate \<lparr>timeValue = Some 1000000\<rparr>) = Num 1000000
   \<and> isWithin 0 (Time_millis (Num 950000)) (Str ''-100s'') (Some (OfDate \<lparr>timeValue = Some 1000000\<rparr>))
       = Inr True
   \<and> isWithin 0 (Time_millis (Num 950000)) (Str ''100s'') (Some (OfDate \<lparr>timeValue = Some 1000000\<rparr>))
       = Inr True
   \<and> isWithin 0 (Time_millis (Num 950000)) (Str ''-100s'') None = Inr False"
proof -
  have a: "normalizeToMillis (Str ''-100s'') = Inr (Num (- 100000))"
    by (simp add: normalizeToMillis_def parse_minus_100s)
  have b: "normalizeToMillis (Str ''100s'') = Inr (num_neg (Num (- 100000)))"
    by (simp add: normalizeToMillis_def parse_100s)
  have c: "toMillis (Time_millis (Num 950000)) = Num 950000"
    by (simp add: Time_millis_def toMillis_Time_new)
  have e: "otherMs (OfDate \<lparr>timeValue = Some 1000000\<rparr>) = Num 1000000"
    by (simp add: otherMs_def getTime_def)
  show ?thesis
    using a b c e
      isWithin_symmetric_window [of "Str ''-100s''" "Num (- 100000)" 0 "Time_millis (Num 950000)"
        "OfDate \<lparr>timeValue = Some 1000000\<rparr>" 950000 1000000 "- 100000" "Str ''100s''"
        "Some (OfDate \<lparr>timeValue = Some 1000000\<rparr>)" "Time_millis (Num 950000)"]
    by simp
qed

end
